theory Spec2Isabelle
  imports Complex_Main "HOL-Library.AList" "HOL-Library.Sublist"
begin

section \<open>Python strings\<close>

text \<open>
  A Python \<open>str\<close> is modelled as a \<open>string\<close>.  Every string of the scenario table is
  ASCII, on which \<open>str.lower\<close> and \<open>str.upper\<close> change exactly the 26 letters.
\<close>

definition lower_char :: "char \<Rightarrow> char" where
  "lower_char c =
     (let n = (of_char c :: nat) in if 65 \<le> n \<and> n \<le> 90 then char_of (n + 32) else c)"

definition upper_char :: "char \<Rightarrow> char" where
  "upper_char c =
     (let n = (of_char c :: nat) in if 97 \<le> n \<and> n \<le> 122 then char_of (n - 32) else c)"

definition lower :: "string \<Rightarrow> string" where
  "lower s = map lower_char s"

definition upper :: "string \<Rightarrow> string" where
  "upper s = map upper_char s"

text \<open>\<open>s.replace(old, new)\<close> for one-character \<open>old\<close> and \<open>new\<close>.\<close>

definition replace :: "char \<Rightarrow> char \<Rightarrow> string \<Rightarrow> string" where
  "replace old new s = map (\<lambda>c. if c = old then new else c) s"

text \<open>\<open>sep.join(xs)\<close>.\<close>

fun join :: "string \<Rightarrow> string list \<Rightarrow> string" where
  "join sep [] = []"
| "join sep [x] = x"
| "join sep (x # y # ys) = x @ sep @ join sep (y # ys)"

text \<open>\<open>str(n)\<close> for a non-negative integer, and the zero-padded fields of \<open>strftime\<close>.\<close>

definition digit :: "nat \<Rightarrow> char" where
  "digit d = char_of (48 + d)"

function str_nat :: "nat \<Rightarrow> string" where
  "str_nat n = (if n < 10 then [digit n] else str_nat (n div 10) @ [digit (n mod 10)])"
  by pat_completeness auto
termination
  by (relation "measure id") auto

declare str_nat.simps [simp del]

definition pad2 :: "nat \<Rightarrow> string" where
  "pad2 n = [digit (n div 10 mod 10), digit (n mod 10)]"

definition pad4 :: "nat \<Rightarrow> string" where
  "pad4 n = [digit (n div 1000 mod 10), digit (n div 100 mod 10),
             digit (n div 10 mod 10), digit (n mod 10)]"

text \<open>\<open>s.strip()\<close>: leading and trailing white space removed.\<close>

definition isspace :: "char \<Rightarrow> bool" where
  "isspace c = (let n = (of_char c :: nat) in n = 32 \<or> (9 \<le> n \<and> n \<le> 13) \<or> (28 \<le> n \<and> n \<le> 31))"

definition strip :: "string \<Rightarrow> string" where
  "strip s = rev (dropWhile isspace (rev (dropWhile isspace s)))"

text \<open>\<open>c * 80\<close> for a one-character string \<open>c\<close>, and the quote character.\<close>

definition banner :: "char \<Rightarrow> string" where
  "banner c = replicate 80 c"

definition quote :: string where
  "quote = [CHR 0x27]"

section \<open>The scenario table\<close>

record phase_config =
  name :: string
  agent :: string
  prompt :: string

record scenario =
  scenario_name :: string
  phases :: "phase_config list"

definition conference_phases :: "phase_config list" where
  "conference_phases =
    [\<lparr>name = ''Research & Requirements'',
      agent = ''Conference Researcher'',
      prompt = ''You are a conference planning expert. Research and identify key requirements for a 3-day conference including: target audience, main themes, session types, networking opportunities, and logistical needs. Provide a comprehensive overview in 150 words.''\<rparr>,
     \<lparr>name = ''Agenda Structure'',
      agent = ''Agenda Designer'',
      prompt = ''You are an agenda design specialist. Based on the research, create a structured 3-day conference agenda structure including: daily themes, session timing, breaks, keynote slots, and parallel tracks. Provide a day-by-day framework in 150 words.''\<rparr>,
     \<lparr>name = ''Content Planning'',
      agent = ''Content Strategist'',
      prompt = ''You are a content strategist. Based on the agenda structure, plan specific session topics, speaker recommendations, workshop ideas, and interactive activities for each day. Make it engaging and valuable in 150 words.''\<rparr>,
     \<lparr>name = ''Final Review'',
      agent = ''Conference Reviewer'',
      prompt = ''You are a conference quality reviewer. Review the complete conference plan and provide 3 key recommendations for success, potential improvements, and critical success factors. Be concise in 150 words.''\<rparr>]"

definition marketing_phases :: "phase_config list" where
  "marketing_phases =
    [\<lparr>name = ''Market Analysis'',
      agent = ''Market Analyst'',
      prompt = ''You are a market analyst. Analyze the target market for the product including: customer segments, competitive landscape, market trends, and opportunities. Provide insights in 150 words.''\<rparr>,
     \<lparr>name = ''Strategy Development'',
      agent = ''Marketing Strategist'',
      prompt = ''You are a marketing strategist. Based on the market analysis, develop a comprehensive marketing strategy including: positioning, key messages, target channels, and campaign approach. Be strategic in 150 words.''\<rparr>,
     \<lparr>name = ''Tactical Planning'',
      agent = ''Marketing Tactician'',
      prompt = ''You are a marketing tactician. Based on the strategy, create specific tactical plans including: content types, social media approach, advertising channels, and promotional activities. Be actionable in 150 words.''\<rparr>,
     \<lparr>name = ''Success Metrics'',
      agent = ''Marketing Analyst'',
      prompt = ''You are a marketing analyst. Define success metrics and KPIs for the marketing strategy including: measurement methods, target goals, and evaluation criteria. Be specific in 150 words.''\<rparr>]"

definition research_phases :: "phase_config list" where
  "research_phases =
    [\<lparr>name = ''Topic Research'',
      agent = ''Research Specialist'',
      prompt = ''You are a research specialist. Research and identify the research topic scope, key questions, existing literature gaps, and significance of the research area. Provide a comprehensive overview in 150 words.''\<rparr>,
     \<lparr>name = ''Outline Structure'',
      agent = ''Academic Writer'',
      prompt = ''You are an academic writer. Based on the research, create a structured research paper outline including: abstract, introduction, literature review, methodology, results, discussion, and conclusion sections. Provide a detailed framework in 150 words.''\<rparr>,
     \<lparr>name = ''Content Planning'',
      agent = ''Content Planner'',
      prompt = ''You are a content planner. Based on the outline, plan specific content for each section including: key points, data requirements, analysis methods, and expected contributions. Be detailed in 150 words.''\<rparr>,
     \<lparr>name = ''Review & Refinement'',
      agent = ''Academic Reviewer'',
      prompt = ''You are an academic reviewer. Review the research paper outline and provide 3 key recommendations for improvement, potential gaps, and academic rigor enhancements. Be constructive in 150 words.''\<rparr>]"

definition architecture_phases :: "phase_config list" where
  "architecture_phases =
    [\<lparr>name = ''Requirements Analysis'',
      agent = ''Systems Analyst'',
      prompt = ''You are a systems analyst. Analyze the software requirements including: functional requirements, non-functional requirements, scalability needs, and technical constraints. Provide a comprehensive analysis in 150 words.''\<rparr>,
     \<lparr>name = ''Architecture Design'',
      agent = ''Software Architect'',
      prompt = ''You are a software architect. Based on the requirements, design the software architecture including: system components, technology stack, architectural patterns, and system interactions. Provide a high-level design in 150 words.''\<rparr>,
     \<lparr>name = ''Technical Planning'',
      agent = ''Technical Lead'',
      prompt = ''You are a technical lead. Based on the architecture, plan technical implementation details including: database design, API structure, security measures, and deployment strategy. Be technical in 150 words.''\<rparr>,
     \<lparr>name = ''Architecture Review'',
      agent = ''Architecture Reviewer'',
      prompt = ''You are an architecture reviewer. Review the software architecture plan and provide 3 key recommendations for improvement, potential risks, and best practices. Be critical in 150 words.''\<rparr>]"

definition SCENARIOS :: "(string \<times> scenario) list" where
  "SCENARIOS =
    [(''conference'', \<lparr>scenario_name = ''3-Day Conference Agenda Planning'', phases = conference_phases\<rparr>),
     (''marketing'', \<lparr>scenario_name = ''Marketing Strategy Design'', phases = marketing_phases\<rparr>),
     (''research'', \<lparr>scenario_name = ''Research Paper Outline'', phases = research_phases\<rparr>),
     (''architecture'', \<lparr>scenario_name = ''Software Architecture Planning'', phases = architecture_phases\<rparr>)]"

text \<open>The storage key of a phase: \<open>phase['name'].lower().replace(' ', '_')\<close>.\<close>

definition phase_key :: "string \<Rightarrow> string" where
  "phase_key nm = replace (CHR '' '') (CHR ''_'') (lower nm)"

section \<open>Collaborators and the outside world\<close>

text \<open>
  Python exceptions.  \<open>SystemExit\<close> is what \<open>exit(n)\<close> raises; it is not an
  \<open>Exception\<close>, so \<open>except Exception\<close> lets it through.  \<open>Error m\<close> stands for any
  \<open>Exception\<close> raised while a completion is requested and its text extracted
  (\<open>client.chat.completions.create(...)\<close> followed by \<open>.choices[0].message.content\<close>),
  with \<open>str(e) = m\<close>.
\<close>

datatype exn = SystemExit nat | EOFError | KeyError string | Error string

fun is_Exception :: "exn \<Rightarrow> bool" where
  "is_Exception (SystemExit n) = False"
| "is_Exception e = True"

fun str_exn :: "exn \<Rightarrow> string" where
  "str_exn (SystemExit n) = str_nat n"
| "str_exn EOFError = ''EOF when reading a line''"
| "str_exn (KeyError k) = quote @ k @ quote"
| "str_exn (Error m) = m"

record message =
  role :: string
  content :: string

record request =
  rq_model :: string
  rq_temperature :: rat
  rq_max_tokens :: nat
  rq_messages :: "message list"

record datetime =
  year :: nat
  month :: nat
  day :: nat
  hour :: nat
  minute :: nat
  second :: nat
  microsecond :: nat

text \<open>\<open>strftime('%Y-%m-%d %H:%M:%S')\<close> and \<open>strftime('%Y%m%d_%H%M%S')\<close>.\<close>

definition strftime_display :: "datetime \<Rightarrow> string" where
  "strftime_display t =
     pad4 (year t) @ ''-'' @ pad2 (month t) @ ''-'' @ pad2 (day t) @ '' '' @
     pad2 (hour t) @ '':'' @ pad2 (minute t) @ '':'' @ pad2 (second t)"

definition strftime_stamp :: "datetime \<Rightarrow> string" where
  "strftime_stamp t =
     pad4 (year t) @ pad2 (month t) @ pad2 (day t) @ ''_'' @
     pad2 (hour t) @ pad2 (minute t) @ pad2 (second t)"

text \<open>
  The module \<open>config\<close> and the OpenAI client are not part of the program text; they are
  parameters.  \<open>create k rq\<close> is the outcome of the completion call that is made after
  \<open>k\<close> earlier ones with request \<open>rq\<close>: the text of the first choice, or the exception
  raised.  \<open>now k\<close> is the \<open>k\<close>-th reading of \<open>datetime.now()\<close>, and \<open>format_exc e\<close> the
  text that \<open>traceback.print_exc()\<close> writes for \<open>e\<close>.
\<close>

record env =
  validate_setup :: bool
  OPENAI_MODEL :: string
  AGENT_TEMPERATURE :: rat
  AGENT_MAX_TOKENS :: nat
  create :: "nat \<Rightarrow> request \<Rightarrow> exn + string"
  now :: "nat \<Rightarrow> datetime"
  format_exc :: "exn \<Rightarrow> string"

text \<open>
  What the program does to its surroundings: the chunks written to standard output and
  standard error, the completion requests sent, the files written, the number of clock
  readings, and the lines still to be read from standard input.
\<close>

record world =
  stdout :: "string list"
  stderr :: "string list"
  requests :: "request list"
  files :: "string \<rightharpoonup> string"
  clock_reads :: nat
  stdin :: "string list"

definition print :: "string \<Rightarrow> world \<Rightarrow> world" where
  "print s w = w\<lparr>stdout := stdout w @ [s @ ''\<newline>'']\<rparr>"

definition input :: "string \<Rightarrow> world \<Rightarrow> (exn + string) \<times> world" where
  "input p w =
     (let w1 = w\<lparr>stdout := stdout w @ [p]\<rparr>
      in case stdin w1 of
           [] \<Rightarrow> (Inl EOFError, w1)
         | l # ls \<Rightarrow> (Inr l, w1\<lparr>stdin := ls\<rparr>))"

definition datetime_now :: "env \<Rightarrow> world \<Rightarrow> datetime \<times> world" where
  "datetime_now e w = (now e (clock_reads w), w\<lparr>clock_reads := Suc (clock_reads w)\<rparr>)"

definition open_w :: "string \<Rightarrow> world \<Rightarrow> world" where
  "open_w path w = w\<lparr>files := (files w)(path \<mapsto> [])\<rparr>"

definition file_write :: "string \<Rightarrow> string \<Rightarrow> world \<Rightarrow> world" where
  "file_write path s w =
     w\<lparr>files := (files w)(path \<mapsto> (case files w path of None \<Rightarrow> [] | Some c \<Rightarrow> c) @ s)\<rparr>"

section \<open>The workflow object\<close>

text \<open>
  \<open>outputs\<close> is a Python \<open>dict\<close>: an association list in insertion order, where an
  assignment to a present key replaces the value in place and an assignment to an absent
  key appends.
\<close>

record workflow =
  outputs :: "(string \<times> string) list"
  model :: string
  scenario :: scenario
  scenario_type :: string
  topic :: string

definition init :: "env \<Rightarrow> string \<Rightarrow> string \<Rightarrow> world \<Rightarrow> (exn + workflow) \<times> world" where
  "init e sid tp w =
     (if \<not> validate_setup e then
        (Inl (SystemExit 1), print ''ERROR: Configuration validation failed!'' w)
      else case map_of SCENARIOS sid of
        None \<Rightarrow>
          (Inl (SystemExit 1),
           print (''Available scenarios: '' @ join '', '' (map fst SCENARIOS))
             (print (''ERROR: Unknown scenario type '' @ quote @ sid @ quote) w))
      | Some sc \<Rightarrow>
          (Inr \<lparr>outputs = [], model = OPENAI_MODEL e, scenario = sc,
                scenario_type = sid, topic = tp\<rparr>, w))"

subsection \<open>\<open>execute_phase\<close>\<close>

text \<open>The inner loop over \<open>self.scenario['phases'][:phase_num-1]\<close>, extending \<open>context\<close>.\<close>

fun add_context :: "(string \<times> string) list \<Rightarrow> phase_config list \<Rightarrow> string \<Rightarrow> string" where
  "add_context outs [] ctx = ctx"
| "add_context outs (prev_phase # rest) ctx =
     (case map_of outs (phase_key (name prev_phase)) of
        Some v \<Rightarrow>
          add_context outs rest
            (ctx @ ''\<newline>'' @ name prev_phase @ '':\<newline>'' @ v @ ''\<newline>'')
      | None \<Rightarrow> add_context outs rest ctx)"

definition user_message :: "workflow \<Rightarrow> nat \<Rightarrow> phase_config \<Rightarrow> string" where
  "user_message self phase_num phase_cfg =
     (let um = prompt phase_cfg;
          um = (if phase_num > 1 then
                  add_context (outputs self) (take (phase_num - 1) (phases (scenario self)))
                    ''\<newline>\<newline>Previous Phase Results:\<newline>'' @ ''\<newline>'' @ um
                else um)
      in if topic self \<noteq> [] then ''Topic/Product: '' @ topic self @ ''\<newline>\<newline>'' @ um
         else um)"

definition completion_request :: "env \<Rightarrow> workflow \<Rightarrow> nat \<Rightarrow> phase_config \<Rightarrow> request" where
  "completion_request e self phase_num phase_cfg =
     \<lparr>rq_model = model self,
      rq_temperature = AGENT_TEMPERATURE e,
      rq_max_tokens = AGENT_MAX_TOKENS e,
      rq_messages =
        [\<lparr>role = ''system'',
          content = ''You are '' @ agent phase_cfg @ ''. '' @ prompt phase_cfg\<rparr>,
         \<lparr>role = ''user'', content = user_message self phase_num phase_cfg\<rparr>]\<rparr>"

definition execute_phase ::
  "env \<Rightarrow> nat \<Rightarrow> phase_config \<Rightarrow> workflow \<times> world \<Rightarrow> (exn + unit) \<times> workflow \<times> world" where
  "execute_phase e phase_num phase_cfg s =
     (let self = fst s;
          w = print (''['' @ agent phase_cfg @ '' is working...]'')
                (print (banner (CHR ''=''))
                  (print (''PHASE '' @ str_nat phase_num @ '': '' @ upper (name phase_cfg))
                    (print (''\<newline>'' @ banner (CHR ''='')) (snd s))));
          rq = completion_request e self phase_num phase_cfg;
          w' = w\<lparr>requests := requests w @ [rq]\<rparr>
      in case create e (length (requests w)) rq of
           Inl err \<Rightarrow> (Inl err, self, w')
         | Inr text \<Rightarrow>
             (Inr (),
              self\<lparr>outputs := AList.update (phase_key (name phase_cfg)) text (outputs self)\<rparr>,
              print text (print (''\<newline>['' @ agent phase_cfg @ '' Output]'') w')))"

text \<open>The loop \<open>for i, phase in enumerate(self.scenario['phases'], 1)\<close> of \<open>run\<close>.\<close>

fun run_phases ::
  "env \<Rightarrow> nat \<Rightarrow> phase_config list \<Rightarrow> workflow \<times> world \<Rightarrow> (exn + unit) \<times> workflow \<times> world" where
  "run_phases e i [] s = (Inr (), s)"
| "run_phases e i (phase # rest) s =
     (case execute_phase e i phase s of
        (Inl err, s') \<Rightarrow> (Inl err, s')
      | (Inr u, s') \<Rightarrow> run_phases e (Suc i) rest s')"

subsection \<open>\<open>print_summary\<close>\<close>

text \<open>The three loops of \<open>print_summary\<close>; \<open>self.outputs[phase_key]\<close> raises on an absent key.\<close>

fun print_agents :: "nat \<Rightarrow> phase_config list \<Rightarrow> world \<Rightarrow> world" where
  "print_agents i [] w = w"
| "print_agents i (phase # rest) w =
     print_agents (Suc i) rest (print (str_nat i @ ''. '' @ agent phase @ '' - '' @ name phase) w)"

definition results_heading :: "nat \<Rightarrow> phase_config \<Rightarrow> world \<Rightarrow> world" where
  "results_heading i phase w =
     print (banner (CHR ''-''))
       (print (''PHASE '' @ str_nat i @ '': '' @ upper (name phase) @ '' (Full Output)'')
         (print (''\<newline>'' @ banner (CHR ''-'')) w))"

fun print_results ::
  "(string \<times> string) list \<Rightarrow> nat \<Rightarrow> phase_config list \<Rightarrow> world \<Rightarrow> (exn + unit) \<times> world" where
  "print_results outs i [] w = (Inr (), w)"
| "print_results outs i (phase # rest) w =
     (case map_of outs (phase_key (name phase)) of
        None \<Rightarrow> (Inl (KeyError (phase_key (name phase))), results_heading i phase w)
      | Some v \<Rightarrow> print_results outs (Suc i) rest (print v (results_heading i phase w)))"

definition file_heading :: "string \<Rightarrow> nat \<Rightarrow> phase_config \<Rightarrow> world \<Rightarrow> world" where
  "file_heading path i phase w =
     file_write path (banner (CHR ''-'') @ ''\<newline>'')
       (file_write path (''PHASE '' @ str_nat i @ '': '' @ upper (name phase) @ ''\<newline>'')
         (file_write path (''\<newline>'' @ banner (CHR ''-'') @ ''\<newline>'') w))"

fun write_results ::
  "string \<Rightarrow> (string \<times> string) list \<Rightarrow> nat \<Rightarrow> phase_config list \<Rightarrow> world \<Rightarrow>
   (exn + unit) \<times> world" where
  "write_results path outs i [] w = (Inr (), w)"
| "write_results path outs i (phase # rest) w =
     (case map_of outs (phase_key (name phase)) of
        None \<Rightarrow> (Inl (KeyError (phase_key (name phase))), file_heading path i phase w)
      | Some v \<Rightarrow>
          write_results path outs (Suc i) rest
            (file_write path (v @ ''\<newline>'') (file_heading path i phase w)))"

definition output_file :: "string \<Rightarrow> datetime \<Rightarrow> string" where
  "output_file sid t = ''Exercise_4_'' @ sid @ ''_'' @ strftime_stamp t @ ''.txt''"

definition save_results :: "env \<Rightarrow> workflow \<times> world \<Rightarrow> (exn + unit) \<times> workflow \<times> world" where
  "save_results e s =
     (let self = fst s;
          (timestamp, w) = datetime_now e (snd s);
          path = output_file (scenario_type self) timestamp;
          w = open_w path w;
          w = file_write path (banner (CHR ''='') @ ''\<newline>'') w;
          w = file_write path
                (''AUTOGEN '' @ upper (scenario_name (scenario self)) @ '' - FULL RESULTS\<newline>'') w;
          w = file_write path (banner (CHR ''='') @ ''\<newline>'') w;
          (generated, w) = datetime_now e w;
          w = file_write path (''Generated: '' @ strftime_display generated @ ''\<newline>'') w;
          w = file_write path (''Model: '' @ model self @ ''\<newline>'') w;
          w = (if topic self \<noteq> [] then file_write path (''Topic: '' @ topic self @ ''\<newline>'') w
               else w);
          w = file_write path ''\<newline>'' w
      in case write_results path (outputs self) 1 (phases (scenario self)) w of
           (Inl err, w) \<Rightarrow> (Inl err, self, w)
         | (Inr u, w) \<Rightarrow>
             (let w = print ([CHR 0x0A, CHR 0xF0, CHR 0x9F, CHR 0x92, CHR 0xBE] @
                             '' Full results saved to: '' @ path) w;
                  (end_time, w) = datetime_now e w;
                  w = print (''\<newline>End Time: '' @ strftime_display end_time) w;
                  w = print (banner (CHR ''='')) w
              in (Inr (), self, w)))"

definition print_summary :: "env \<Rightarrow> workflow \<times> world \<Rightarrow> (exn + unit) \<times> workflow \<times> world" where
  "print_summary e s =
     (let self = fst s;
          w = print (''\<newline>'' @ banner (CHR ''='')) (snd s);
          w = print ''FINAL SUMMARY'' w;
          w = print (banner (CHR ''='')) w;
          w = print (''\<newline>This workflow demonstrated a '' @
                     str_nat (length (phases (scenario self))) @
                     ''-agent collaboration for '' @ scenario_name (scenario self) @
                     '':\<newline>'') w;
          w = print_agents 1 (phases (scenario self)) w;
          w = print (''\<newline>Each agent received context from the previous agent'' @ quote @
                     ''s output,\<newline>demonstrating the sequential workflow pattern of AutoGen.\<newline>'') w;
          w = print (''\<newline>'' @ banner (CHR ''='')) w;
          w = print ''FULL RESULTS - ALL PHASES'' w;
          w = print (banner (CHR ''='')) w
      in case print_results (outputs self) 1 (phases (scenario self)) w of
           (Inl err, w) \<Rightarrow> (Inl err, self, w)
         | (Inr u, w) \<Rightarrow> save_results e (self, w))"

subsection \<open>\<open>run\<close>\<close>

definition run_header :: "env \<Rightarrow> workflow \<times> world \<Rightarrow> workflow \<times> world" where
  "run_header e s =
     (let self = fst s;
          w = print (''\<newline>'' @ banner (CHR ''='')) (snd s);
          w = print (''AUTOGEN '' @ upper (scenario_name (scenario self)) @ '' WORKFLOW'') w;
          w = print (banner (CHR ''='')) w;
          w = (if topic self \<noteq> [] then print (''Topic: '' @ topic self) w else w);
          (start, w) = datetime_now e w;
          w = print (''Start Time: '' @ strftime_display start) w;
          w = print (''Model: '' @ model self @ ''\<newline>'') w
      in (self, w))"

definition run :: "env \<Rightarrow> workflow \<times> world \<Rightarrow> (exn + unit) \<times> workflow \<times> world" where
  "run e s =
     (case run_phases e 1 (phases (scenario (fst s))) (run_header e s) of
        (Inl err, s') \<Rightarrow> (Inl err, s')
      | (Inr u, s') \<Rightarrow> print_summary e s')"

section \<open>\<open>main\<close>\<close>

text \<open>The \<open>try\<close> statement of \<open>main\<close>, entered with the scenario and topic chosen before it.\<close>

definition success_line :: string where
  "success_line = [CHR 0x0A, CHR 0xE2, CHR 0x9C, CHR 0x85] @ '' Workflow completed successfully!''"

definition error_line :: "exn \<Rightarrow> string" where
  "error_line err =
     [CHR 0x0A, CHR 0xE2, CHR 0x9D, CHR 0x8C] @ '' Error during workflow execution: '' @ str_exn err"

definition except_Exception :: "env \<Rightarrow> exn \<Rightarrow> world \<Rightarrow> (exn + unit) \<times> world" where
  "except_Exception e err w =
     (if is_Exception err then
        (let w = print (error_line err) w;
             w = print ''\<newline>Troubleshooting:'' w;
             w = print ''1. Verify OPENAI_API_KEY is set in parent directory .env (../.env)'' w;
             w = print ''2. Check your API key has sufficient credits'' w;
             w = print ''3. Verify internet connection'' w;
             w = print ''4. Ensure config.py can access shared_config from parent directory'' w;
             w = w\<lparr>stderr := stderr w @ [format_exc e err]\<rparr>
         in (Inr (), w))
      else (Inl err, w))"

definition try_workflow :: "env \<Rightarrow> string \<Rightarrow> string \<Rightarrow> world \<Rightarrow> (exn + unit) \<times> world" where
  "try_workflow e sid tp w =
     (case init e sid tp w of
        (Inl err, w) \<Rightarrow> except_Exception e err w
      | (Inr self, w) \<Rightarrow>
          (case run e (self, w) of
             (Inl err, self, w) \<Rightarrow> except_Exception e err w
           | (Inr u, self, w) \<Rightarrow> (Inr (), print success_line w)))"

definition ask_topic ::
  "env \<Rightarrow> string \<Rightarrow> string \<Rightarrow> world \<Rightarrow> (exn + unit) \<times> world" where
  "ask_topic e sid question w =
     (case input question w of
        (Inl err, w) \<Rightarrow> (Inl err, w)
      | (Inr line, w) \<Rightarrow> try_workflow e sid (strip line) w)"

definition interactive :: "env \<Rightarrow> world \<Rightarrow> (exn + unit) \<times> world" where
  "interactive e w =
     (let w = print (''\<newline>'' @ banner (CHR ''='')) w;
          w = print ''AUTOGEN CUSTOM PROBLEMS - EXERCISE 4'' w;
          w = print (banner (CHR ''='')) w;
          w = print ''\<newline>Available Scenarios:'' w;
          w = print ''1. conference - Plan a 3-day conference agenda'' w;
          w = print ''2. marketing  - Design a marketing strategy for a product'' w;
          w = print ''3. research   - Create a research paper outline'' w;
          w = print ''4. architecture - Plan a software architecture'' w;
          w = print [] w
      in case input ''Select scenario (1-4) or name: '' w of
           (Inl err, w) \<Rightarrow> (Inl err, w)
         | (Inr line, w) \<Rightarrow>
             (let choice = lower (strip line)
              in if choice = ''1'' \<or> choice = ''conference'' then
                   ask_topic e ''conference''
                     (''Enter conference topic (e.g., '' @ quote @ ''AI & Machine Learning'' @
                      quote @ ''): '') w
                 else if choice = ''2'' \<or> choice = ''marketing'' then
                   ask_topic e ''marketing''
                     (''Enter product name (e.g., '' @ quote @ ''Smart Home Assistant'' @
                      quote @ ''): '') w
                 else if choice = ''3'' \<or> choice = ''research'' then
                   ask_topic e ''research''
                     (''Enter research topic (e.g., '' @ quote @ ''Climate Change Impact'' @
                      quote @ ''): '') w
                 else if choice = ''4'' \<or> choice = ''architecture'' then
                   ask_topic e ''architecture''
                     (''Enter software project (e.g., '' @ quote @ ''E-commerce Platform'' @
                      quote @ ''): '') w
                 else
                   try_workflow e ''conference'' []
                     (print ''Invalid choice. Using default: conference'' w)))"

definition main :: "env \<Rightarrow> string list \<Rightarrow> world \<Rightarrow> (exn + unit) \<times> world" where
  "main e argv w =
     (if length argv = 1 then interactive e w
      else try_workflow e
             (if length argv > 1 then lower (argv ! 1) else ''conference'')
             (if length argv > 2 then join '' '' (drop 2 argv) else [])
             w)"

text \<open>
  The exit status of the process running \<open>main()\<close>: 0 when \<open>main\<close> returns, the argument
  of \<open>exit\<close> when \<open>SystemExit\<close> escapes, 1 when any other exception escapes.
\<close>

fun exit_status :: "exn + unit \<Rightarrow> nat" where
  "exit_status (Inr u) = 0"
| "exit_status (Inl (SystemExit n)) = n"
| "exit_status (Inl err) = 1"

definition world0 :: "string list \<Rightarrow> world" where
  "world0 lines =
     \<lparr>stdout = [], stderr = [], requests = [], files = Map.empty, clock_reads = 0,
      stdin = lines\<rparr>"

section \<open>Sample collaborators\<close>

text \<open>Concrete collaborators and clock readings, used to instantiate the results below.\<close>

definition sample_time :: datetime where
  "sample_time =
     \<lparr>year = 2026, month = 11, day = 4, hour = 9, minute = 5, second = 7, microsecond = 0\<rparr>"

definition replying_env :: env where
  "replying_env =
     \<lparr>validate_setup = True, OPENAI_MODEL = ''gpt-4o-mini'', AGENT_TEMPERATURE = 7 / 10,
      AGENT_MAX_TOKENS = 500, create = (\<lambda>k rq. Inr (''reply '' @ str_nat k)),
      now = (\<lambda>k. sample_time), format_exc = (\<lambda>err. ''Traceback (most recent call last):'')\<rparr>"

definition failing_env :: "nat \<Rightarrow> env" where
  "failing_env n =
     replying_env\<lparr>create :=
       (\<lambda>k rq. if k = n then Inl (Error ''Connection error.'') else Inr (''reply '' @ str_nat k))\<rparr>"

definition marketing :: scenario where
  "marketing = \<lparr>scenario_name = ''Marketing Strategy Design'', phases = marketing_phases\<rparr>"

definition sample_workflow :: workflow where
  "sample_workflow =
     \<lparr>outputs = [], model = ''gpt-4o-mini'', scenario = marketing,
      scenario_type = ''marketing'', topic = ''Smart Home Assistant''\<rparr>"

section \<open>Auxiliary facts\<close>

text \<open>The storage key of a phase configuration.\<close>

definition key_of :: "phase_config \<Rightarrow> string" where
  "key_of phase = phase_key (name phase)"

text \<open>
  The state of \<open>run\<close> at the moment phase \<open>i\<close> begins: the header has been printed and the
  loop has gone through the first \<open>i - 1\<close> phases.
\<close>

definition at_phase :: "env \<Rightarrow> workflow \<times> world \<Rightarrow> nat \<Rightarrow> (exn + unit) \<times> workflow \<times> world" where
  "at_phase e s i = run_phases e 1 (take (i - 1) (phases (scenario (fst s)))) (run_header e s)"

lemma lower_char_idem: "lower_char (lower_char c) = lower_char c"
  by (simp add: lower_char_def Let_def)

lemma key_char_idem:
  "(if lower_char (if lower_char c = CHR '' '' then CHR ''_'' else lower_char c) = CHR '' ''
    then CHR ''_''
    else lower_char (if lower_char c = CHR '' '' then CHR ''_'' else lower_char c)) =
   (if lower_char c = CHR '' '' then CHR ''_'' else lower_char c)"
  by (simp add: lower_char_idem) (simp add: lower_char_def)

lemma phase_key_idem: "phase_key (phase_key nm) = phase_key nm"
  unfolding phase_key_def replace_def lower_def map_map comp_def
  using key_char_idem by simp

lemma table_phases:
  assumes "map_of SCENARIOS sid = Some sc"
  shows "phases sc = conference_phases \<or> phases sc = marketing_phases \<or>
         phases sc = research_phases \<or> phases sc = architecture_phases"
  using assms by (auto simp: SCENARIOS_def split: if_splits)

lemma table_ids:
  assumes "map_of SCENARIOS sid = Some sc"
  shows "sid = ''conference'' \<or> sid = ''marketing'' \<or> sid = ''research'' \<or> sid = ''architecture''"
  using assms by (auto simp: SCENARIOS_def split: if_splits)

lemma conference_keys:
  "map key_of conference_phases =
     [''research_&_requirements'', ''agenda_structure'', ''content_planning'', ''final_review'']"
  by code_simp

lemma marketing_keys:
  "map key_of marketing_phases =
     [''market_analysis'', ''strategy_development'', ''tactical_planning'', ''success_metrics'']"
  by code_simp

lemma research_keys:
  "map key_of research_phases =
     [''topic_research'', ''outline_structure'', ''content_planning'', ''review_&_refinement'']"
  by code_simp

lemma architecture_keys:
  "map key_of architecture_phases =
     [''requirements_analysis'', ''architecture_design'', ''technical_planning'',
      ''architecture_review'']"
  by code_simp

lemma table_keys_distinct:
  assumes "map_of SCENARIOS sid = Some sc"
  shows "distinct (map key_of (phases sc))"
proof -
  from table_phases [OF assms] consider "phases sc = conference_phases"
    | "phases sc = marketing_phases" | "phases sc = research_phases"
    | "phases sc = architecture_phases" by blast
  then show ?thesis
  proof cases
    case 1 then show ?thesis by (simp only: conference_keys) simp
  next
    case 2 then show ?thesis by (simp only: marketing_keys) simp
  next
    case 3 then show ?thesis by (simp only: research_keys) simp
  next
    case 4 then show ?thesis by (simp only: architecture_keys) simp
  qed
qed

lemma table_length:
  assumes "map_of SCENARIOS sid = Some sc"
  shows "length (phases sc) = 4"
proof -
  have "length conference_phases = 4" "length marketing_phases = 4"
    "length research_phases = 4" "length architecture_phases = 4"
    by (simp_all add: conference_phases_def marketing_phases_def research_phases_def
        architecture_phases_def)
  with table_phases [OF assms] show ?thesis by metis
qed

lemma print_fields [simp]:
  "stdout (print s w) = stdout w @ [s @ ''\<newline>'']"
  "stderr (print s w) = stderr w"
  "requests (print s w) = requests w"
  "files (print s w) = files w"
  "clock_reads (print s w) = clock_reads w"
  "stdin (print s w) = stdin w"
  by (simp_all add: print_def)

lemma update_fresh:
  "k \<notin> fst ` set al \<Longrightarrow> AList.update k v al = al @ [(k, v)]"
  by (induction al) auto

lemma execute_phase_Inr:
  assumes "create e (length (requests w)) (completion_request e self i phase) = Inr text"
  shows "\<exists>w'. execute_phase e i phase (self, w) =
           (Inr (), self\<lparr>outputs := AList.update (key_of phase) text (outputs self)\<rparr>, w') \<and>
         requests w' = requests w @ [completion_request e self i phase] \<and>
         files w' = files w \<and> clock_reads w' = clock_reads w \<and> stdin w' = stdin w \<and>
         stderr w' = stderr w"
  using assms by (simp add: execute_phase_def Let_def key_of_def)

lemma execute_phase_Inl:
  assumes "create e (length (requests w)) (completion_request e self i phase) = Inl err"
  shows "\<exists>w'. execute_phase e i phase (self, w) = (Inl err, self, w') \<and>
         requests w' = requests w @ [completion_request e self i phase] \<and>
         files w' = files w \<and> clock_reads w' = clock_reads w \<and> stdin w' = stdin w \<and>
         stderr w' = stderr w"
  using assms by (simp add: execute_phase_def Let_def)

lemma marketing_table: "map_of SCENARIOS ''marketing'' = Some marketing"
  by (simp add: SCENARIOS_def marketing_def)

lemma execute_phase_cases:
  assumes "execute_phase e i phase (self, w) = (r, self', w')"
  shows "requests w' = requests w @ [completion_request e self i phase] \<and>
         files w' = files w \<and> clock_reads w' = clock_reads w \<and> stdin w' = stdin w \<and>
         stderr w' = stderr w \<and>
         ((\<exists>text. create e (length (requests w)) (completion_request e self i phase) = Inr text \<and>
              r = Inr () \<and>
              self' = self\<lparr>outputs := AList.update (key_of phase) text (outputs self)\<rparr>) \<or>
          (\<exists>err. create e (length (requests w)) (completion_request e self i phase) = Inl err \<and>
              r = Inl err \<and> self' = self))"
proof (cases "create e (length (requests w)) (completion_request e self i phase)")
  case (Inl err)
  from execute_phase_Inl [OF Inl] assms Inl show ?thesis by auto
next
  case (Inr reply)
  from execute_phase_Inr [OF Inr] assms Inr show ?thesis by auto
qed

lemma run_phases_append:
  "run_phases e i (xs @ ys) s =
     (case run_phases e i xs s of
        (Inl err, s') \<Rightarrow> (Inl err, s')
      | (Inr u, s') \<Rightarrow> run_phases e (i + length xs) ys s')"
proof (induction xs arbitrary: i s)
  case Nil
  then show ?case by simp
next
  case (Cons x xs)
  obtain r s1 where step: "execute_phase e i x s = (r, s1)"
    by (cases "execute_phase e i x s")
  then show ?case using Cons.IH [of "Suc i" s1]
    by (cases r) (simp_all split: prod.splits sum.splits)
qed

lemma run_phases_frame:
  assumes "run_phases e i ps (self, w) = (r, self', w')"
  shows "scenario self' = scenario self \<and> topic self' = topic self \<and>
         model self' = model self \<and> scenario_type self' = scenario_type self \<and>
         files w' = files w \<and> clock_reads w' = clock_reads w \<and> stdin w' = stdin w \<and>
         stderr w' = stderr w"
  using assms
proof (induction ps arbitrary: i self w)
  case Nil
  then show ?case by simp
next
  case (Cons p ps)
  obtain r1 self1 w1 where step: "execute_phase e i p (self, w) = (r1, self1, w1)"
    by (metis prod_cases3)
  from execute_phase_cases [OF step]
  have fr: "scenario self1 = scenario self \<and> topic self1 = topic self \<and>
         model self1 = model self \<and> scenario_type self1 = scenario_type self \<and>
         files w1 = files w \<and> clock_reads w1 = clock_reads w \<and> stdin w1 = stdin w \<and>
         stderr w1 = stderr w"
    by auto
  show ?case
  proof (cases r1)
    case (Inl err)
    with step Cons.prems fr show ?thesis by simp
  next
    case (Inr u)
    with step Cons.prems have "run_phases e (Suc i) ps (self1, w1) = (r, self', w')"
      by simp
    from Cons.IH [OF this] fr show ?thesis by simp
  qed
qed

lemma run_phases_Inr:
  assumes "run_phases e i ps (self, w) = (Inr u, self', w')"
    and "distinct (map key_of ps)"
    and "\<forall>p \<in> set ps. key_of p \<notin> fst ` set (outputs self)"
  shows "\<exists>texts rs. length texts = length ps \<and> length rs = length ps \<and>
           outputs self' = outputs self @ zip (map key_of ps) texts \<and>
           requests w' = requests w @ rs \<and>
           (\<forall>j < length ps. create e (length (requests w) + j) (rs ! j) = Inr (texts ! j))"
  using assms
proof (induction ps arbitrary: i self w)
  case Nil
  then show ?case by simp
next
  case (Cons p ps)
  obtain r1 self1 w1 where step: "execute_phase e i p (self, w) = (r1, self1, w1)"
    by (metis prod_cases3)
  let ?rq = "completion_request e self i p"
  from step Cons.prems(1) have r1: "r1 = Inr ()"
    by (cases r1) simp_all
  with step Cons.prems(1) have rest: "run_phases e (Suc i) ps (self1, w1) = (Inr u, self', w')"
    by simp
  from execute_phase_cases [OF step] r1 obtain reply where
    call: "create e (length (requests w)) ?rq = Inr reply" and
    self1: "self1 = self\<lparr>outputs := AList.update (key_of p) reply (outputs self)\<rparr>" and
    rq1: "requests w1 = requests w @ [?rq]"
    by auto
  from Cons.prems(3) have "key_of p \<notin> fst ` set (outputs self)"
    by simp
  with self1 have out1: "outputs self1 = outputs self @ [(key_of p, reply)]"
    by (simp add: update_fresh)
  have d: "distinct (map key_of ps)" using Cons.prems(2) by simp
  have fresh: "\<forall>q \<in> set ps. key_of q \<notin> fst ` set (outputs self1)"
  proof
    fix q assume q: "q \<in> set ps"
    from Cons.prems(2) have "key_of p \<notin> key_of ` set ps" by simp
    with q have "key_of q \<noteq> key_of p" by (metis imageI)
    moreover from q Cons.prems(3) have "key_of q \<notin> fst ` set (outputs self)" by simp
    ultimately show "key_of q \<notin> fst ` set (outputs self1)"
      using out1 by auto
  qed
  from Cons.IH [OF rest d fresh] obtain texts rs where
    ih: "length texts = length ps" "length rs = length ps"
      "outputs self' = outputs self1 @ zip (map key_of ps) texts"
      "requests w' = requests w1 @ rs"
      "\<forall>j < length ps. create e (length (requests w1) + j) (rs ! j) = Inr (texts ! j)"
    by blast
  have resp: "\<forall>j < length (p # ps).
      create e (length (requests w) + j) ((?rq # rs) ! j) = Inr ((reply # texts) ! j)"
  proof (intro allI impI)
    fix j assume j: "j < length (p # ps)"
    show "create e (length (requests w) + j) ((?rq # rs) ! j) = Inr ((reply # texts) ! j)"
    proof (cases j)
      case 0
      with call show ?thesis by simp
    next
      case (Suc k)
      with j have "k < length ps" by simp
      with ih(5) have "create e (length (requests w1) + k) (rs ! k) = Inr (texts ! k)"
        by blast
      with Suc rq1 show ?thesis by simp
    qed
  qed
  have "length (reply # texts) = length (p # ps)" "length (?rq # rs) = length (p # ps)"
    "outputs self' = outputs self @ zip (map key_of (p # ps)) (reply # texts)"
    "requests w' = requests w @ (?rq # rs)"
    using ih out1 rq1 by simp_all
  with resp show ?case by blast
qed

lemma run_phases_Inl:
  assumes "run_phases e i ps (self, w) = (Inl err, self', w')"
  shows "\<exists>rs. requests w' = requests w @ rs \<and> rs \<noteq> [] \<and>
           create e (length (requests w') - 1) (last rs) = Inl err"
  using assms
proof (induction ps arbitrary: i self w)
  case Nil
  then show ?case by simp
next
  case (Cons p ps)
  obtain r1 self1 w1 where step: "execute_phase e i p (self, w) = (r1, self1, w1)"
    by (metis prod_cases3)
  let ?rq = "completion_request e self i p"
  from execute_phase_cases [OF step] have rq1: "requests w1 = requests w @ [?rq]"
    by simp
  show ?case
  proof (cases r1)
    case (Inl err1)
    with step Cons.prems have eq: "err1 = err" "self' = self1" "w' = w1" by simp_all
    from execute_phase_cases [OF step] Inl
    have "create e (length (requests w)) ?rq = Inl err1" by auto
    with eq rq1 show ?thesis by simp
  next
    case (Inr u)
    with step Cons.prems have "run_phases e (Suc i) ps (self1, w1) = (Inl err, self', w')"
      by simp
    from Cons.IH [OF this] obtain rs where
      "requests w' = requests w1 @ rs" "rs \<noteq> []"
      "create e (length (requests w') - 1) (last rs) = Inl err"
      by blast
    with rq1 have "requests w' = requests w @ (?rq # rs) \<and> ?rq # rs \<noteq> [] \<and>
        create e (length (requests w') - 1) (last (?rq # rs)) = Inl err"
      by simp
    then show ?thesis by blast
  qed
qed

lemma init_Inr:
  assumes "init e sid tp w0 = (Inr self0, w1)"
  shows "map_of SCENARIOS sid = Some (scenario self0) \<and> outputs self0 = [] \<and>
         topic self0 = tp \<and> scenario_type self0 = sid \<and> model self0 = OPENAI_MODEL e \<and>
         w1 = w0 \<and> validate_setup e"
  using assms by (auto simp: init_def split: if_splits option.splits)

lemma datetime_now_fields [simp]:
  "fst (datetime_now e w) = now e (clock_reads w)"
  "stdout (snd (datetime_now e w)) = stdout w"
  "stderr (snd (datetime_now e w)) = stderr w"
  "requests (snd (datetime_now e w)) = requests w"
  "files (snd (datetime_now e w)) = files w"
  "clock_reads (snd (datetime_now e w)) = Suc (clock_reads w)"
  "stdin (snd (datetime_now e w)) = stdin w"
  by (simp_all add: datetime_now_def)

lemma run_header_fields [simp]:
  "fst (run_header e s) = fst s"
  "requests (snd (run_header e s)) = requests (snd s)"
  "files (snd (run_header e s)) = files (snd s)"
  "stderr (snd (run_header e s)) = stderr (snd s)"
  "stdin (snd (run_header e s)) = stdin (snd s)"
  "clock_reads (snd (run_header e s)) = Suc (clock_reads (snd s))"
  by (simp_all add: run_header_def Let_def split_beta)

lemma add_context_present:
  assumes "\<forall>q \<in> set qs. \<exists>v. map_of outs (key_of q) = Some v"
  shows "add_context outs qs ctx =
           ctx @ concat (map (\<lambda>q. ''\<newline>'' @ name q @ '':\<newline>'' @ the (map_of outs (key_of q)) @ ''\<newline>'') qs)"
  using assms
proof (induction qs arbitrary: ctx)
  case Nil
  then show ?case by simp
next
  case (Cons q qs)
  from Cons.prems obtain v where v: "map_of outs (phase_key (name q)) = Some v"
    by (auto simp: key_of_def)
  from Cons.prems have "\<forall>q \<in> set qs. \<exists>v. map_of outs (key_of q) = Some v"
    by simp
  from Cons.IH [OF this] v show ?case
    by (simp add: key_of_def)
qed

lemma stored_texts:
  assumes "distinct (map f ps)" and "length texts = length ps"
  shows "map (\<lambda>q. the (map_of (zip (map f ps) texts) (f q))) ps = texts"
proof (rule nth_equalityI)
  show "length (map (\<lambda>q. the (map_of (zip (map f ps) texts) (f q))) ps) = length texts"
    using assms by simp
next
  fix j assume "j < length (map (\<lambda>q. the (map_of (zip (map f ps) texts) (f q))) ps)"
  then have j: "j < length ps" by simp
  with assms have "map_of (zip (map f ps) texts) (map f ps ! j) = Some (texts ! j)"
    by (intro map_of_zip_nth) simp_all
  with j show "map (\<lambda>q. the (map_of (zip (map f ps) texts) (f q))) ps ! j = texts ! j"
    by simp
qed

lemma map_zip_self:
  "map (\<lambda>q. g q (h q)) ps = map (\<lambda>(p, t). g p t) (zip ps (map h ps))"
  by (induction ps) simp_all

lemma add_context_zip:
  assumes "distinct (map key_of ps)" and "length texts = length ps"
  shows "add_context (zip (map key_of ps) texts) ps ctx =
           ctx @ concat (map (\<lambda>(p, t). ''\<newline>'' @ name p @ '':\<newline>'' @ t @ ''\<newline>'') (zip ps texts))"
proof -
  let ?outs = "zip (map key_of ps) texts"
  have "\<forall>q \<in> set ps. \<exists>v. map_of ?outs (key_of q) = Some v"
  proof
    fix q assume "q \<in> set ps"
    then have "key_of q \<in> set (map key_of ps)" by simp
    with assms(2) have "key_of q \<in> dom (map_of ?outs)" by simp
    then show "\<exists>v. map_of ?outs (key_of q) = Some v" by blast
  qed
  from add_context_present [OF this]
  have "add_context ?outs ps ctx =
      ctx @ concat (map (\<lambda>q. ''\<newline>'' @ name q @ '':\<newline>'' @ the (map_of ?outs (key_of q)) @ ''\<newline>'') ps)" .
  also have "map (\<lambda>q. ''\<newline>'' @ name q @ '':\<newline>'' @ the (map_of ?outs (key_of q)) @ ''\<newline>'') ps =
      map (\<lambda>(p, t). ''\<newline>'' @ name p @ '':\<newline>'' @ t @ ''\<newline>'')
        (zip ps (map (\<lambda>q. the (map_of ?outs (key_of q))) ps))"
    by (rule map_zip_self)
  also have "map (\<lambda>q. the (map_of ?outs (key_of q))) ps = texts"
    by (rule stored_texts [OF assms])
  finally show ?thesis .
qed

text \<open>What is known when phase i begins in a run of a table scenario.\<close>

lemma at_phase_Inr:
  assumes init: "init e sid tp w0 = (Inr self0, w1)"
    and i: "1 \<le> i" "i \<le> length (phases (scenario self0))"
    and start: "at_phase e (self0, w1) i = (Inr u, self, w)"
  shows "\<exists>texts. length texts = i - 1 \<and>
           outputs self = zip (map key_of (take (i - 1) (phases (scenario self0)))) texts \<and>
           length (requests w) = length (requests w0) + (i - 1) \<and>
           take (length (requests w0)) (requests w) = requests w0 \<and>
           (\<forall>j < i - 1. create e (length (requests w0) + j) (requests w ! (length (requests w0) + j)) =
                        Inr (texts ! j)) \<and>
           scenario self = scenario self0 \<and> topic self = tp \<and> model self = OPENAI_MODEL e \<and>
           scenario_type self = sid \<and> files w = files w0 \<and> stdin w = stdin w0 \<and>
           stderr w = stderr w0 \<and> clock_reads w = Suc (clock_reads w0)"
proof -
  let ?ps = "take (i - 1) (phases (scenario self0))"
  from init_Inr [OF init] have tab: "map_of SCENARIOS sid = Some (scenario self0)"
    and s0: "outputs self0 = []" "topic self0 = tp" "scenario_type self0 = sid"
      "model self0 = OPENAI_MODEL e" "w1 = w0"
    by simp_all
  from start have loop:
    "run_phases e 1 ?ps (self0, snd (run_header e (self0, w1))) = (Inr u, self, w)"
    by (simp add: at_phase_def) (metis fst_conv prod.collapse run_header_fields(1))
  from table_keys_distinct [OF tab] have d: "distinct (map key_of ?ps)"
    by (simp add: distinct_take take_map [symmetric])
  have fresh: "\<forall>p \<in> set ?ps. key_of p \<notin> fst ` set (outputs self0)"
    using s0 by simp
  from run_phases_Inr [OF loop d fresh] obtain texts rs where
    r: "length texts = length ?ps" "length rs = length ?ps"
      "outputs self = outputs self0 @ zip (map key_of ?ps) texts"
      "requests w = requests (snd (run_header e (self0, w1))) @ rs"
      "\<forall>j < length ?ps. create e (length (requests (snd (run_header e (self0, w1)))) + j)
          (rs ! j) = Inr (texts ! j)"
    by blast
  have len: "length ?ps = i - 1" using i by simp
  from run_phases_frame [OF loop] have fr:
    "scenario self = scenario self0" "topic self = tp" "model self = OPENAI_MODEL e"
    "scenario_type self = sid" "files w = files w0" "stdin w = stdin w0"
    "stderr w = stderr w0" "clock_reads w = Suc (clock_reads w0)"
    using s0 by simp_all
  from r len s0 have
    "length texts = i - 1"
    "outputs self = zip (map key_of ?ps) texts"
    "length (requests w) = length (requests w0) + (i - 1)"
    "take (length (requests w0)) (requests w) = requests w0"
    "\<forall>j < i - 1. create e (length (requests w0) + j) (requests w ! (length (requests w0) + j)) =
         Inr (texts ! j)"
    by (simp_all add: nth_append)
  with fr show ?thesis by blast
qed

lemma execute_phase_sends:
  "requests (snd (snd (execute_phase e i phase (self, w)))) =
     requests w @ [completion_request e self i phase]"
  using execute_phase_cases [of e i phase self w
      "fst (execute_phase e i phase (self, w))" "fst (snd (execute_phase e i phase (self, w)))"
      "snd (snd (execute_phase e i phase (self, w)))"]
  by simp

lemma user_content:
  "rq_messages (completion_request e self i phase) ! 1 =
     \<lparr>role = ''user'', content = user_message self i phase\<rparr>"
  by (simp add: completion_request_def)

lemma user_message_at_phase:
  assumes init: "init e sid tp w0 = (Inr self0, w1)"
    and i: "1 < i" "i \<le> length (phases (scenario self0))"
    and start: "at_phase e (self0, w1) i = (Inr u, self, w)"
  shows "\<exists>texts. length texts = i - 1 \<and>
           outputs self = zip (map key_of (take (i - 1) (phases (scenario self0)))) texts \<and>
           (\<forall>j < i - 1. create e (length (requests w0) + j) (requests w ! (length (requests w0) + j)) =
                        Inr (texts ! j)) \<and>
           user_message self i phase =
             (if tp = [] then [] else ''Topic/Product: '' @ tp @ ''\<newline>\<newline>'') @
             ''\<newline>\<newline>Previous Phase Results:\<newline>'' @
             concat (map (\<lambda>(p, t). ''\<newline>'' @ name p @ '':\<newline>'' @ t @ ''\<newline>'')
                       (zip (take (i - 1) (phases (scenario self0))) texts)) @
             ''\<newline>'' @ prompt phase"
proof -
  let ?ps = "take (i - 1) (phases (scenario self0))"
  from i have i1: "1 \<le> i" by simp
  from at_phase_Inr [OF init i1 i(2) start] obtain texts where
    t: "length texts = i - 1" "outputs self = zip (map key_of ?ps) texts"
      "\<forall>j < i - 1. create e (length (requests w0) + j) (requests w ! (length (requests w0) + j)) =
          Inr (texts ! j)"
      "scenario self = scenario self0" "topic self = tp"
    by blast
  from init_Inr [OF init] have tab: "map_of SCENARIOS sid = Some (scenario self0)"
    by simp
  from table_keys_distinct [OF tab] have d: "distinct (map key_of ?ps)"
    by (simp add: distinct_take take_map [symmetric])
  have len: "length texts = length ?ps" using t(1) i by simp
  have "user_message self i phase =
      (if tp = [] then [] else ''Topic/Product: '' @ tp @ ''\<newline>\<newline>'') @
      add_context (outputs self) ?ps ''\<newline>\<newline>Previous Phase Results:\<newline>'' @
      ''\<newline>'' @ prompt phase"
    using i(1) t(4,5) by (simp add: user_message_def Let_def)
  also have "add_context (outputs self) ?ps ''\<newline>\<newline>Previous Phase Results:\<newline>'' =
      ''\<newline>\<newline>Previous Phase Results:\<newline>'' @
      concat (map (\<lambda>(p, t). ''\<newline>'' @ name p @ '':\<newline>'' @ t @ ''\<newline>'') (zip ?ps texts))"
    unfolding t(2) by (rule add_context_zip [OF d len])
  finally have "user_message self i phase =
      (if tp = [] then [] else ''Topic/Product: '' @ tp @ ''\<newline>\<newline>'') @
      ''\<newline>\<newline>Previous Phase Results:\<newline>'' @
      concat (map (\<lambda>(p, t). ''\<newline>'' @ name p @ '':\<newline>'' @ t @ ''\<newline>'') (zip ?ps texts)) @
      ''\<newline>'' @ prompt phase"
    by simp
  with t(1,2,3) show ?thesis by blast
qed

lemma sample_init:
  "init replying_env ''marketing'' ''Smart Home Assistant'' (world0 []) =
     (Inr sample_workflow, world0 [])"
  by (simp add: init_def replying_env_def marketing_table sample_workflow_def)

lemma sample_at_phase_2:
  "fst (at_phase replying_env (sample_workflow, world0 []) 2) = Inr ()"
  by code_simp

lemma file_write_fields [simp]:
  "stdout (file_write path s w) = stdout w"
  "stderr (file_write path s w) = stderr w"
  "requests (file_write path s w) = requests w"
  "clock_reads (file_write path s w) = clock_reads w"
  "stdin (file_write path s w) = stdin w"
  by (simp_all add: file_write_def)

lemma open_w_fields [simp]:
  "stdout (open_w path w) = stdout w"
  "stderr (open_w path w) = stderr w"
  "requests (open_w path w) = requests w"
  "clock_reads (open_w path w) = clock_reads w"
  "stdin (open_w path w) = stdin w"
  by (simp_all add: open_w_def)

lemma print_agents_fields [simp]:
  "requests (print_agents i ps w) = requests w"
  "files (print_agents i ps w) = files w"
  "stderr (print_agents i ps w) = stderr w"
  "clock_reads (print_agents i ps w) = clock_reads w"
  by (induction ps arbitrary: i w) simp_all

lemma results_heading_fields [simp]:
  "requests (results_heading i phase w) = requests w"
  "files (results_heading i phase w) = files w"
  "stderr (results_heading i phase w) = stderr w"
  "clock_reads (results_heading i phase w) = clock_reads w"
  by (simp_all add: results_heading_def)

lemma file_heading_fields [simp]:
  "requests (file_heading path i phase w) = requests w"
  "stdout (file_heading path i phase w) = stdout w"
  "stderr (file_heading path i phase w) = stderr w"
  "clock_reads (file_heading path i phase w) = clock_reads w"
  by (simp_all add: file_heading_def)

lemma print_results_fields:
  "requests (snd (print_results outs i ps w)) = requests w \<and>
   files (snd (print_results outs i ps w)) = files w \<and>
   stderr (snd (print_results outs i ps w)) = stderr w \<and>
   clock_reads (snd (print_results outs i ps w)) = clock_reads w"
  by (induction ps arbitrary: i w) (simp_all split: option.splits)

lemma write_results_fields:
  "requests (snd (write_results path outs i ps w)) = requests w \<and>
   stdout (snd (write_results path outs i ps w)) = stdout w \<and>
   stderr (snd (write_results path outs i ps w)) = stderr w \<and>
   clock_reads (snd (write_results path outs i ps w)) = clock_reads w"
  by (induction ps arbitrary: i w) (simp_all split: option.splits)

lemma print_results_Inr:
  assumes "\<forall>p \<in> set ps. \<exists>v. map_of outs (key_of p) = Some v"
  shows "fst (print_results outs i ps w) = Inr ()"
  using assms by (induction ps arbitrary: i w) (auto simp: key_of_def)

lemma write_results_Inr:
  assumes "\<forall>p \<in> set ps. \<exists>v. map_of outs (key_of p) = Some v"
  shows "fst (write_results path outs i ps w) = Inr ()"
  using assms by (induction ps arbitrary: i w) (auto simp: key_of_def)

lemma save_results_self:
  "fst (snd (save_results e (self, w))) = self \<and>
   requests (snd (snd (save_results e (self, w)))) = requests w \<and>
   stderr (snd (snd (save_results e (self, w)))) = stderr w"
  using write_results_fields
  by (simp add: save_results_def Let_def split_beta split: sum.splits prod.splits)

lemma save_results_Inr:
  assumes "\<forall>p \<in> set (phases (scenario self)). \<exists>v. map_of (outputs self) (key_of p) = Some v"
  shows "fst (save_results e (self, w)) = Inr ()"
  using write_results_Inr [OF assms]
  by (simp add: save_results_def Let_def split_beta split: sum.splits prod.splits)

lemma print_summary_self:
  "fst (snd (print_summary e (self, w))) = self \<and>
   requests (snd (snd (print_summary e (self, w)))) = requests w \<and>
   stderr (snd (snd (print_summary e (self, w)))) = stderr w"
  using print_results_fields save_results_self
  by (simp add: print_summary_def Let_def split: sum.splits prod.splits)
     (metis print_agents_fields(1,3) print_fields(2,3) snd_conv)

lemma print_summary_Inr:
  assumes "\<forall>p \<in> set (phases (scenario self)). \<exists>v. map_of (outputs self) (key_of p) = Some v"
  shows "fst (print_summary e (self, w)) = Inr ()"
  using print_results_Inr [OF assms] save_results_Inr [OF assms]
  by (simp add: print_summary_def Let_def split: sum.splits prod.splits)
     (metis fst_conv sum.distinct(1))

lemma run_phases_split:
  assumes "run_phases e k (xs @ ys) s = (Inr u, s')"
  shows "\<exists>s1. run_phases e k xs s = (Inr (), s1) \<and>
              run_phases e (k + length xs) ys s1 = (Inr u, s')"
proof -
  obtain r1 s1 where p: "run_phases e k xs s = (r1, s1)"
    by (cases "run_phases e k xs s")
  with assms have "r1 = Inr ()"
    by (cases r1) (simp_all add: run_phases_append)
  with p assms show ?thesis
    by (simp add: run_phases_append)
qed

lemma run_phases_from_phase:
  assumes i: "1 \<le> i" "i \<le> length (phases (scenario self0))"
    and start: "at_phase e (self0, w1) i = (Inr u, s1)"
  shows "run_phases e 1 (phases (scenario self0)) (run_header e (self0, w1)) =
           (case execute_phase e i (phases (scenario self0) ! (i - 1)) s1 of
              (Inl err, s2) \<Rightarrow> (Inl err, s2)
            | (Inr v, s2) \<Rightarrow> run_phases e (Suc i) (drop i (phases (scenario self0))) s2)"
proof -
  let ?ps = "phases (scenario self0)"
  from i have "?ps = take (i - 1) ?ps @ (?ps ! (i - 1)) # drop i ?ps"
    using id_take_nth_drop [of "i - 1" ?ps] by simp
  then have "run_phases e 1 ?ps (run_header e (self0, w1)) =
      run_phases e 1 (take (i - 1) ?ps @ (?ps ! (i - 1)) # drop i ?ps) (run_header e (self0, w1))"
    by simp
  also have "\<dots> = run_phases e (1 + length (take (i - 1) ?ps)) ((?ps ! (i - 1)) # drop i ?ps) s1"
    using start by (simp only: run_phases_append at_phase_def fst_conv) simp
  also have "1 + length (take (i - 1) ?ps) = i"
    using i by simp
  finally show ?thesis by simp
qed

lemma sample_len: "2 \<le> length (phases (scenario sample_workflow))"
  by (simp add: sample_workflow_def marketing_def marketing_phases_def)

lemma sample_start:
  "at_phase replying_env (sample_workflow, world0 []) 2 =
      (Inr (), fst (snd (at_phase replying_env (sample_workflow, world0 []) 2)),
       snd (snd (at_phase replying_env (sample_workflow, world0 []) 2)))"
  using sample_at_phase_2 by (simp add: prod_eq_iff)

lemma sample_step_2:
  "fst (execute_phase replying_env 2 (phases (scenario sample_workflow) ! (2 - 1))
     (snd (at_phase replying_env (sample_workflow, world0 []) 2))) = Inr ()"
  by code_simp

lemma run_cases:
  assumes "run e (self0, w1) = (r, self', w')"
  shows "(\<exists>err. r = Inl err \<and>
            run_phases e 1 (phases (scenario self0)) (run_header e (self0, w1)) = (Inl err, self', w')) \<or>
         (\<exists>w2. run_phases e 1 (phases (scenario self0)) (run_header e (self0, w1)) = (Inr (), self', w2) \<and>
            print_summary e (self', w2) = (r, self', w') \<and> requests w' = requests w2 \<and>
            stderr w' = stderr w2)"
proof -
  obtain r1 self1 w2 where
    loop: "run_phases e 1 (phases (scenario self0)) (run_header e (self0, w1)) = (r1, self1, w2)"
    by (metis prod_cases3)
  show ?thesis
  proof (cases r1)
    case (Inl err)
    with loop assms have "r = Inl err" "self' = self1" "w' = w2"
      by (simp_all add: run_def)
    with loop Inl show ?thesis by simp
  next
    case (Inr v)
    with loop assms have ps: "print_summary e (self1, w2) = (r, self', w')"
      by (simp add: run_def)
    with print_summary_self [of e self1 w2] have "self' = self1" "requests w' = requests w2"
      "stderr w' = stderr w2"
      by simp_all
    with loop Inr ps show ?thesis by simp
  qed
qed

lemma failing_init:
  "init (failing_env 1) ''marketing'' ''Smart Home Assistant'' (world0 []) =
     (Inr sample_workflow, world0 [])"
  by (simp add: init_def failing_env_def replying_env_def marketing_table sample_workflow_def)

lemma failing_at_phase_2:
  "fst (at_phase (failing_env 1) (sample_workflow, world0 []) 2) = Inr ()"
  by code_simp

lemma failing_call_2:
  "create (failing_env 1)
     (length (requests (snd (snd (at_phase (failing_env 1) (sample_workflow, world0 []) 2)))))
     (completion_request (failing_env 1)
        (fst (snd (at_phase (failing_env 1) (sample_workflow, world0 []) 2))) 2
        (phases (scenario sample_workflow) ! (2 - 1))) = Inl (Error ''Connection error.'')"
  by code_simp

lemma keys_present:
  assumes "map fst outs = map key_of ps"
  shows "\<forall>p \<in> set ps. \<exists>v. map_of outs (key_of p) = Some v"
proof
  fix p assume "p \<in> set ps"
  then have "key_of p \<in> set (map key_of ps)" by simp
  with assms have "key_of p \<in> fst ` set outs" by (metis set_map)
  then have "map_of outs (key_of p) \<noteq> None" by (simp add: map_of_eq_None_iff)
  then show "\<exists>v. map_of outs (key_of p) = Some v" by blast
qed

section \<open>Normalisation of phase names\<close>

text \<open>
  C7.  Normalising a phase name to its storage key is a function of the name alone and is
  idempotent; within every scenario of the table, phases with distinct names have
  distinct keys; and the key under which \<open>execute_phase\<close> stores a phase's text is the key
  under which the context loop of a later phase reads it: after a successful
  \<open>execute_phase\<close> for a phase, the context loop run on that phase renders exactly the
  stored text.
\<close>

theorem phase_key_normalisation:
  "(nm = nm' \<longrightarrow> phase_key nm = phase_key nm') \<and>
   phase_key (phase_key nm) = phase_key nm \<and>
   (map_of SCENARIOS sid = Some sc \<longrightarrow>
      (\<forall>p \<in> set (phases sc). \<forall>q \<in> set (phases sc).
         name p \<noteq> name q \<longrightarrow> phase_key (name p) \<noteq> phase_key (name q))) \<and>
   (create e (length (requests w)) (completion_request e self i phase) = Inr text \<longrightarrow>
      add_context (outputs (fst (snd (execute_phase e i phase (self, w))))) [phase] ctx =
        ctx @ ''\<newline>'' @ name phase @ '':\<newline>'' @ text @ ''\<newline>'')"
proof -
  have distinct_names:
    "\<forall>p \<in> set (phases sc). \<forall>q \<in> set (phases sc).
       name p \<noteq> name q \<longrightarrow> phase_key (name p) \<noteq> phase_key (name q)"
    if "map_of SCENARIOS sid = Some sc"
  proof (intro ballI impI)
    fix p q
    assume pq: "p \<in> set (phases sc)" "q \<in> set (phases sc)" and ne: "name p \<noteq> name q"
    from table_keys_distinct [OF that] have "inj_on key_of (set (phases sc))"
      by (simp add: distinct_map)
    with pq ne show "phase_key (name p) \<noteq> phase_key (name q)"
      by (auto simp: inj_on_def key_of_def)
  qed
  have stored:
    "add_context (outputs (fst (snd (execute_phase e i phase (self, w))))) [phase] ctx =
       ctx @ ''\<newline>'' @ name phase @ '':\<newline>'' @ text @ ''\<newline>''"
    if "create e (length (requests w)) (completion_request e self i phase) = Inr text"
  proof -
    from execute_phase_Inr [OF that] obtain w' where
      "execute_phase e i phase (self, w) =
         (Inr (), self\<lparr>outputs := AList.update (key_of phase) text (outputs self)\<rparr>, w')"
      by blast
    then show ?thesis
      by (simp add: update_conv' key_of_def)
  qed
  from distinct_names stored show ?thesis
    by (simp add: phase_key_idem)
qed

theorem phase_key_normalisation_witness:
  "map_of SCENARIOS ''marketing'' = Some marketing \<and>
   marketing_phases ! 0 \<in> set (phases marketing) \<and>
   marketing_phases ! 1 \<in> set (phases marketing) \<and>
   name (marketing_phases ! 0) \<noteq> name (marketing_phases ! 1) \<and>
   phase_key (name (marketing_phases ! 0)) \<noteq> phase_key (name (marketing_phases ! 1)) \<and>
   create replying_env (length (requests (world0 [])))
     (completion_request replying_env sample_workflow 1 (marketing_phases ! 0)) = Inr ''reply 0'' \<and>
   add_context
     (outputs (fst (snd (execute_phase replying_env 1 (marketing_phases ! 0)
        (sample_workflow, world0 [])))))
     [marketing_phases ! 0] [] =
     ''\<newline>'' @ name (marketing_phases ! 0) @ '':\<newline>'' @ ''reply 0'' @ ''\<newline>''"
proof -
  have tab: "map_of SCENARIOS ''marketing'' = Some marketing"
    by (rule marketing_table)
  have mem: "marketing_phases ! 0 \<in> set (phases marketing)"
    "marketing_phases ! 1 \<in> set (phases marketing)"
    by (simp_all add: marketing_def marketing_phases_def)
  have ne: "name (marketing_phases ! 0) \<noteq> name (marketing_phases ! 1)"
    by (simp add: marketing_phases_def)
  have call: "create replying_env (length (requests (world0 [])))
     (completion_request replying_env sample_workflow 1 (marketing_phases ! 0)) = Inr ''reply 0''"
    by code_simp
  note inst = phase_key_normalisation [of "''Market Analysis''" "''Market Analysis''"
      "''marketing''" marketing replying_env "world0 []" sample_workflow 1
      "marketing_phases ! 0" "''reply 0''" "[]"]
  from inst tab mem ne call show ?thesis
    by simp
qed

section \<open>The outbound user message\<close>

text \<open>
  C10.  For every phase \<open>i > 1\<close> of a run of a table scenario, reached with all earlier
  phases completed, the user message is exactly: the line \<open>Topic/Product: <topic>\<close> and a
  blank line when the topic is non-empty; then the block of prior outputs, which opens
  (after two newlines) with the header line \<open>Previous Phase Results:\<close> and renders
  every prior phase, in scenario order, as a newline, its display name followed by a
  colon on a line of its own, its stored output and a newline; then one more newline
  (a blank line) and the instruction prompt of phase \<open>i\<close>.  This message is the content
  of the user-role entry of the request that \<open>execute_phase\<close> sends.
\<close>

theorem outbound_message_format:
  assumes "init e sid tp w0 = (Inr self0, w1)"
    and "1 < i" and "i \<le> length (phases (scenario self0))"
    and "at_phase e (self0, w1) i = (Inr u, self, w)"
  shows "\<exists>texts. length texts = i - 1 \<and>
           outputs self = zip (map key_of (take (i - 1) (phases (scenario self0)))) texts \<and>
           user_message self i (phases (scenario self0) ! (i - 1)) =
             (if tp = [] then [] else ''Topic/Product: '' @ tp @ ''\<newline>\<newline>'') @
             ''\<newline>\<newline>Previous Phase Results:\<newline>'' @
             concat (map (\<lambda>(p, t). ''\<newline>'' @ name p @ '':\<newline>'' @ t @ ''\<newline>'')
                       (zip (take (i - 1) (phases (scenario self0))) texts)) @
             ''\<newline>'' @ prompt (phases (scenario self0) ! (i - 1)) \<and>
           rq_messages (last (requests (snd (snd (execute_phase e i
               (phases (scenario self0) ! (i - 1)) (self, w)))))) ! 1 =
             \<lparr>role = ''user'',
              content = user_message self i (phases (scenario self0) ! (i - 1))\<rparr>"
proof -
  from user_message_at_phase [OF assms, of "phases (scenario self0) ! (i - 1)"]
  obtain texts where
    "length texts = i - 1"
    "outputs self = zip (map key_of (take (i - 1) (phases (scenario self0)))) texts"
    "user_message self i (phases (scenario self0) ! (i - 1)) =
       (if tp = [] then [] else ''Topic/Product: '' @ tp @ ''\<newline>\<newline>'') @
       ''\<newline>\<newline>Previous Phase Results:\<newline>'' @
       concat (map (\<lambda>(p, t). ''\<newline>'' @ name p @ '':\<newline>'' @ t @ ''\<newline>'')
                 (zip (take (i - 1) (phases (scenario self0))) texts)) @
       ''\<newline>'' @ prompt (phases (scenario self0) ! (i - 1))"
    by blast
  moreover have "rq_messages (last (requests (snd (snd (execute_phase e i
               (phases (scenario self0) ! (i - 1)) (self, w)))))) ! 1 =
             \<lparr>role = ''user'',
              content = user_message self i (phases (scenario self0) ! (i - 1))\<rparr>"
    by (simp only: execute_phase_sends last_snoc user_content)
  ultimately show ?thesis by blast
qed

theorem outbound_message_format_witness:
  "init replying_env ''marketing'' ''Smart Home Assistant'' (world0 []) =
     (Inr sample_workflow, world0 []) \<and>
   (1 :: nat) < 2 \<and> 2 \<le> length (phases (scenario sample_workflow)) \<and>
   at_phase replying_env (sample_workflow, world0 []) 2 =
     (Inr (), snd (at_phase replying_env (sample_workflow, world0 []) 2)) \<and>
   (\<exists>texts. length texts = 2 - 1 \<and>
      user_message (fst (snd (at_phase replying_env (sample_workflow, world0 []) 2))) 2
          (phases (scenario sample_workflow) ! (2 - 1)) =
        (if ''Smart Home Assistant'' = [] then []
         else ''Topic/Product: '' @ ''Smart Home Assistant'' @ ''\<newline>\<newline>'') @
        ''\<newline>\<newline>Previous Phase Results:\<newline>'' @
        concat (map (\<lambda>(p, t). ''\<newline>'' @ name p @ '':\<newline>'' @ t @ ''\<newline>'')
                  (zip (take (2 - 1) (phases (scenario sample_workflow))) texts)) @
        ''\<newline>'' @ prompt (phases (scenario sample_workflow) ! (2 - 1)))"
proof -
  have len: "2 \<le> length (phases (scenario sample_workflow))"
    by (simp add: sample_workflow_def marketing_def marketing_phases_def)
  have start: "at_phase replying_env (sample_workflow, world0 []) 2 =
      (Inr (), fst (snd (at_phase replying_env (sample_workflow, world0 []) 2)),
       snd (snd (at_phase replying_env (sample_workflow, world0 []) 2)))"
    using sample_at_phase_2 by (simp add: prod_eq_iff)
  have one: "(1 :: nat) < 2" by simp
  from outbound_message_format [OF sample_init one len start] sample_init len start
  show ?thesis by auto
qed

text \<open>
  C1.  For every table scenario and every phase index \<open>i > 1\<close> reached with all earlier
  phases completed, the user message built for phase \<open>i\<close> contains, as one contiguous
  run in scenario order and with none left out, an entry for every phase \<open>1..i-1\<close>:
  the phase's display name and a colon on a line, followed by the full text stored for
  that phase, which is the very text that the completion call of that phase returned.
  The message is the one carried by the request that \<open>execute_phase\<close> sends.
\<close>

theorem prior_outputs_in_message:
  assumes "init e sid tp w0 = (Inr self0, w1)"
    and "1 < i" and "i \<le> length (phases (scenario self0))"
    and "at_phase e (self0, w1) i = (Inr u, self, w)"
  shows "\<exists>texts pre post. length texts = i - 1 \<and>
           (\<forall>j < i - 1.
              create e (length (requests w0) + j) (requests w ! (length (requests w0) + j)) =
                Inr (texts ! j) \<and>
              map_of (outputs self) (key_of (phases (scenario self0) ! j)) = Some (texts ! j)) \<and>
           user_message self i (phases (scenario self0) ! (i - 1)) =
             pre @
             concat (map (\<lambda>(p, t). ''\<newline>'' @ name p @ '':\<newline>'' @ t @ ''\<newline>'')
                       (zip (take (i - 1) (phases (scenario self0))) texts)) @
             post \<and>
           content (rq_messages (last (requests (snd (snd (execute_phase e i
               (phases (scenario self0) ! (i - 1)) (self, w)))))) ! 1) =
             user_message self i (phases (scenario self0) ! (i - 1))"
proof -
  let ?ps = "take (i - 1) (phases (scenario self0))"
  let ?phase = "phases (scenario self0) ! (i - 1)"
  from user_message_at_phase [OF assms, of ?phase]
  obtain texts where
    t: "length texts = i - 1"
      "outputs self = zip (map key_of ?ps) texts"
      "\<forall>j < i - 1. create e (length (requests w0) + j) (requests w ! (length (requests w0) + j)) =
          Inr (texts ! j)"
    and msg: "user_message self i ?phase =
       ((if tp = [] then [] else ''Topic/Product: '' @ tp @ ''\<newline>\<newline>'') @
        ''\<newline>\<newline>Previous Phase Results:\<newline>'') @
       concat (map (\<lambda>(p, t). ''\<newline>'' @ name p @ '':\<newline>'' @ t @ ''\<newline>'') (zip ?ps texts)) @
       (''\<newline>'' @ prompt ?phase)"
    by auto
  from init_Inr [OF assms(1)] have tab: "map_of SCENARIOS sid = Some (scenario self0)"
    by simp
  from table_keys_distinct [OF tab] have d: "distinct (map key_of ?ps)"
    by (simp add: distinct_take take_map [symmetric])
  have len: "length (map key_of ?ps) = length texts"
    using t(1) assms(3) by simp
  have stored: "map_of (outputs self) (key_of (phases (scenario self0) ! j)) = Some (texts ! j)"
    if "j < i - 1" for j
  proof -
    from that t(1) have "map_of (zip (map key_of ?ps) texts) (map key_of ?ps ! j) = Some (texts ! j)"
      by (intro map_of_zip_nth [OF len d]) simp
    with that assms(3) t(2) show ?thesis by simp
  qed
  have sent: "content (rq_messages (last (requests (snd (snd (execute_phase e i ?phase (self, w)))))) ! 1) =
      user_message self i ?phase"
    by (simp only: execute_phase_sends last_snoc user_content) simp
  from t(1,3) stored msg sent show ?thesis by blast
qed

theorem prior_outputs_in_message_witness:
  "init replying_env ''marketing'' ''Smart Home Assistant'' (world0 []) =
     (Inr sample_workflow, world0 []) \<and>
   (1 :: nat) < 2 \<and> 2 \<le> length (phases (scenario sample_workflow)) \<and>
   at_phase replying_env (sample_workflow, world0 []) 2 =
     (Inr (), snd (at_phase replying_env (sample_workflow, world0 []) 2)) \<and>
   (\<exists>texts pre post. length texts = 1 \<and>
      create replying_env 0
        (requests (snd (snd (at_phase replying_env (sample_workflow, world0 []) 2))) ! 0) =
        Inr (texts ! 0) \<and>
      user_message (fst (snd (at_phase replying_env (sample_workflow, world0 []) 2))) 2
          (phases (scenario sample_workflow) ! 1) =
        pre @
        concat (map (\<lambda>(p, t). ''\<newline>'' @ name p @ '':\<newline>'' @ t @ ''\<newline>'')
                  (zip (take 1 (phases (scenario sample_workflow))) texts)) @
        post)"
proof -
  have len: "2 \<le> length (phases (scenario sample_workflow))"
    by (simp add: sample_workflow_def marketing_def marketing_phases_def)
  have start: "at_phase replying_env (sample_workflow, world0 []) 2 =
      (Inr (), fst (snd (at_phase replying_env (sample_workflow, world0 []) 2)),
       snd (snd (at_phase replying_env (sample_workflow, world0 []) 2)))"
    using sample_at_phase_2 by (simp add: prod_eq_iff)
  have one: "(1 :: nat) < 2" by simp
  have w0: "length (requests (world0 [])) = 0" by (simp add: world0_def)
  from prior_outputs_in_message [OF sample_init one len start]
  obtain texts pre post where
    "length texts = 2 - 1"
    "\<forall>j < 2 - 1.
       create replying_env (length (requests (world0 [])) + j)
         (requests (snd (snd (at_phase replying_env (sample_workflow, world0 []) 2))) !
            (length (requests (world0 [])) + j)) = Inr (texts ! j)"
    "user_message (fst (snd (at_phase replying_env (sample_workflow, world0 []) 2))) 2
          (phases (scenario sample_workflow) ! (2 - 1)) =
        pre @
        concat (map (\<lambda>(p, t). ''\<newline>'' @ name p @ '':\<newline>'' @ t @ ''\<newline>'')
                  (zip (take (2 - 1) (phases (scenario sample_workflow))) texts)) @
        post"
    by blast
  then have "\<exists>texts pre post. length texts = 1 \<and>
      create replying_env 0
        (requests (snd (snd (at_phase replying_env (sample_workflow, world0 []) 2))) ! 0) =
        Inr (texts ! 0) \<and>
      user_message (fst (snd (at_phase replying_env (sample_workflow, world0 []) 2))) 2
          (phases (scenario sample_workflow) ! 1) =
        pre @
        concat (map (\<lambda>(p, t). ''\<newline>'' @ name p @ '':\<newline>'' @ t @ ''\<newline>'')
                  (zip (take 1 (phases (scenario sample_workflow))) texts)) @
        post"
    using w0 by (intro exI [of _ texts] exI [of _ pre] exI [of _ post]) simp
  with sample_init len start show ?thesis by simp
qed

section \<open>The output mapping during a run\<close>

text \<open>
  C9.  The output mapping is empty when the workflow object is created.  In a run of a
  table scenario, at the moment phase \<open>i\<close> begins (the earlier phases having completed)
  its keys are exactly the storage keys of phases \<open>1..i-1\<close>, in order; the loop of \<open>run\<close>
  continues from that state with \<open>execute_phase\<close> for phase \<open>i\<close>; and when that call
  succeeds it appends exactly one entry, under the key of phase \<open>i\<close>, which was absent
  before, leaving every earlier entry as it was.
\<close>

theorem run_loop_invariant:
  assumes "init e sid tp w0 = (Inr self0, w1)"
    and "1 \<le> i" and "i \<le> length (phases (scenario self0))"
    and "at_phase e (self0, w1) i = (Inr u, self, w)"
  shows "outputs self0 = [] \<and>
         map fst (outputs self) = map key_of (take (i - 1) (phases (scenario self0))) \<and>
         run_phases e 1 (phases (scenario self0)) (run_header e (self0, w1)) =
           (case execute_phase e i (phases (scenario self0) ! (i - 1)) (self, w) of
              (Inl err, s2) \<Rightarrow> (Inl err, s2)
            | (Inr v, s2) \<Rightarrow> run_phases e (Suc i) (drop i (phases (scenario self0))) s2) \<and>
         (\<forall>v self' w'.
            execute_phase e i (phases (scenario self0) ! (i - 1)) (self, w) = (Inr v, self', w') \<longrightarrow>
            key_of (phases (scenario self0) ! (i - 1)) \<notin> fst ` set (outputs self) \<and>
            (\<exists>reply. outputs self' =
                       outputs self @ [(key_of (phases (scenario self0) ! (i - 1)), reply)]))"
proof -
  let ?ps = "phases (scenario self0)"
  let ?phase = "?ps ! (i - 1)"
  from init_Inr [OF assms(1)] have tab: "map_of SCENARIOS sid = Some (scenario self0)"
    and empty: "outputs self0 = []"
    by simp_all
  from at_phase_Inr [OF assms] obtain texts where
    t: "length texts = i - 1" "outputs self = zip (map key_of (take (i - 1) ?ps)) texts"
    by blast
  from t assms(3) have keys: "map fst (outputs self) = map key_of (take (i - 1) ?ps)"
    by simp
  from assms(2,3) have "?ps = take (i - 1) ?ps @ ?phase # drop i ?ps"
    using id_take_nth_drop [of "i - 1" ?ps] by simp
  then have "distinct (map key_of (take (i - 1) ?ps @ ?phase # drop i ?ps))"
    using table_keys_distinct [OF tab] by simp
  then have "key_of ?phase \<notin> set (map key_of (take (i - 1) ?ps))"
    by simp
  with keys have fresh: "key_of ?phase \<notin> fst ` set (outputs self)"
    by (metis set_map)
  have step: "key_of ?phase \<notin> fst ` set (outputs self) \<and>
      (\<exists>reply. outputs self' = outputs self @ [(key_of ?phase, reply)])"
    if "execute_phase e i ?phase (self, w) = (Inr v, self', w')" for v self' w'
  proof -
    from execute_phase_cases [OF that] obtain reply where
      "self' = self\<lparr>outputs := AList.update (key_of ?phase) reply (outputs self)\<rparr>"
      by auto
    with fresh have "outputs self' = outputs self @ [(key_of ?phase, reply)]"
      by (simp add: update_fresh)
    with fresh show ?thesis by blast
  qed
  from run_phases_from_phase [OF assms(2,3,4)]
  have loop: "run_phases e 1 ?ps (run_header e (self0, w1)) =
           (case execute_phase e i ?phase (self, w) of
              (Inl err, s2) \<Rightarrow> (Inl err, s2)
            | (Inr v, s2) \<Rightarrow> run_phases e (Suc i) (drop i ?ps) s2)"
    by simp
  from empty keys loop step show ?thesis by blast
qed

theorem run_loop_invariant_witness:
  "init replying_env ''marketing'' ''Smart Home Assistant'' (world0 []) =
     (Inr sample_workflow, world0 []) \<and>
   (1 :: nat) \<le> 2 \<and> 2 \<le> length (phases (scenario sample_workflow)) \<and>
   at_phase replying_env (sample_workflow, world0 []) 2 =
     (Inr (), snd (at_phase replying_env (sample_workflow, world0 []) 2)) \<and>
   execute_phase replying_env 2 (phases (scenario sample_workflow) ! (2 - 1))
       (snd (at_phase replying_env (sample_workflow, world0 []) 2)) =
     (Inr (), snd (execute_phase replying_env 2 (phases (scenario sample_workflow) ! (2 - 1))
       (snd (at_phase replying_env (sample_workflow, world0 []) 2)))) \<and>
   map fst (outputs (fst (snd (at_phase replying_env (sample_workflow, world0 []) 2)))) =
     map key_of (take (2 - 1) (phases (scenario sample_workflow))) \<and>
   (\<exists>reply.
      outputs (fst (snd (execute_phase replying_env 2 (phases (scenario sample_workflow) ! (2 - 1))
        (snd (at_phase replying_env (sample_workflow, world0 []) 2))))) =
      outputs (fst (snd (at_phase replying_env (sample_workflow, world0 []) 2))) @
        [(key_of (phases (scenario sample_workflow) ! (2 - 1)), reply)])"
proof -
  let ?s = "snd (at_phase replying_env (sample_workflow, world0 []) 2)"
  let ?x = "execute_phase replying_env 2 (phases (scenario sample_workflow) ! (2 - 1)) ?s"
  have one: "(1 :: nat) \<le> 2" by simp
  have step: "execute_phase replying_env 2 (phases (scenario sample_workflow) ! (2 - 1))
        (fst ?s, snd ?s) = (Inr (), fst (snd ?x), snd (snd ?x))"
    using sample_step_2 by (simp add: prod_eq_iff)
  from run_loop_invariant [OF sample_init one sample_len sample_start]
  have inv: "map fst (outputs (fst ?s)) = map key_of (take (2 - 1) (phases (scenario sample_workflow)))"
    and "\<forall>v self' w'.
            execute_phase replying_env 2 (phases (scenario sample_workflow) ! (2 - 1)) (fst ?s, snd ?s) =
              (Inr v, self', w') \<longrightarrow>
            key_of (phases (scenario sample_workflow) ! (2 - 1)) \<notin> fst ` set (outputs (fst ?s)) \<and>
            (\<exists>reply. outputs self' =
                       outputs (fst ?s) @ [(key_of (phases (scenario sample_workflow) ! (2 - 1)), reply)])"
    by blast+
  with step have "\<exists>reply. outputs (fst (snd ?x)) =
      outputs (fst ?s) @ [(key_of (phases (scenario sample_workflow) ! (2 - 1)), reply)]"
    by blast
  with inv sample_init sample_len sample_start step show ?thesis
    by simp
qed

section \<open>Failure of a phase\<close>

text \<open>
  C4.  In a run of a table scenario, if the completion call of phase \<open>k\<close> raises an error
  (the earlier phases having completed), then \<open>run\<close> ends with that error and the
  workflow object is the one phase \<open>k\<close> started with: the entries stored for phases
  \<open>1..k-1\<close> are all there, unchanged, and the keys of phases \<open>k..N\<close> are absent.  The
  request of phase \<open>k\<close> is the last one sent, so that exactly \<open>k\<close> completion calls have
  been made, and no file has been written.
\<close>

theorem failed_phase_aborts_run:
  assumes "init e sid tp w0 = (Inr self0, w1)"
    and "1 \<le> k" and "k \<le> length (phases (scenario self0))"
    and "at_phase e (self0, w1) k = (Inr u, self, w)"
    and "create e (length (requests w)) (completion_request e self k (phases (scenario self0) ! (k - 1))) =
           Inl err"
  shows "\<exists>w'. run e (self0, w1) = (Inl err, self, w') \<and>
           requests w' = requests w @ [completion_request e self k (phases (scenario self0) ! (k - 1))] \<and>
           length (requests w') = length (requests w0) + k \<and>
           files w' = files w0 \<and>
           map fst (outputs self) = map key_of (take (k - 1) (phases (scenario self0))) \<and>
           (\<forall>j < length (phases (scenario self0)).
              k - 1 \<le> j \<longrightarrow> map_of (outputs self) (key_of (phases (scenario self0) ! j)) = None)"
proof -
  let ?ps = "phases (scenario self0)"
  let ?phase = "?ps ! (k - 1)"
  from init_Inr [OF assms(1)] have tab: "map_of SCENARIOS sid = Some (scenario self0)"
    by simp
  from at_phase_Inr [OF assms(1,2,3,4)] obtain texts where
    t: "length texts = k - 1" "outputs self = zip (map key_of (take (k - 1) ?ps)) texts"
      "length (requests w) = length (requests w0) + (k - 1)" "files w = files w0"
    by blast
  from t assms(3) have keys: "map fst (outputs self) = map key_of (take (k - 1) ?ps)"
    by simp
  from execute_phase_Inl [OF assms(5)] obtain w' where
    x: "execute_phase e k ?phase (self, w) = (Inl err, self, w')"
      "requests w' = requests w @ [completion_request e self k ?phase]" "files w' = files w"
    by blast
  from run_phases_from_phase [OF assms(2,3,4)] x(1)
  have "run_phases e 1 ?ps (run_header e (self0, w1)) = (Inl err, self, w')"
    by simp
  then have run: "run e (self0, w1) = (Inl err, self, w')"
    by (simp add: run_def)
  have absent: "map_of (outputs self) (key_of (?ps ! j)) = None"
    if j: "j < length ?ps" "k - 1 \<le> j" for j
  proof -
    from table_keys_distinct [OF tab] have d: "distinct (map key_of ?ps)" .
    have "key_of (?ps ! j) \<notin> set (map key_of (take (k - 1) ?ps))"
    proof
      assume "key_of (?ps ! j) \<in> set (map key_of (take (k - 1) ?ps))"
      then obtain m where m: "m < k - 1" "m < length ?ps" "key_of (?ps ! m) = key_of (?ps ! j)"
        by (auto simp: in_set_conv_nth)
      with d j have "m = j"
        by (simp add: distinct_conv_nth)
      with m j show False by simp
    qed
    with keys have "key_of (?ps ! j) \<notin> fst ` set (outputs self)"
      by (metis set_map)
    then show ?thesis
      by (simp add: map_of_eq_None_iff)
  qed
  from run x(2,3) t(3,4) assms(2) keys absent show ?thesis
    by auto
qed

theorem failed_phase_aborts_run_witness:
  "init (failing_env 1) ''marketing'' ''Smart Home Assistant'' (world0 []) =
     (Inr sample_workflow, world0 []) \<and>
   (1 :: nat) \<le> 2 \<and> 2 \<le> length (phases (scenario sample_workflow)) \<and>
   at_phase (failing_env 1) (sample_workflow, world0 []) 2 =
     (Inr (), snd (at_phase (failing_env 1) (sample_workflow, world0 []) 2)) \<and>
   create (failing_env 1)
     (length (requests (snd (snd (at_phase (failing_env 1) (sample_workflow, world0 []) 2)))))
     (completion_request (failing_env 1)
        (fst (snd (at_phase (failing_env 1) (sample_workflow, world0 []) 2))) 2
        (phases (scenario sample_workflow) ! (2 - 1))) = Inl (Error ''Connection error.'') \<and>
   (\<exists>w'. run (failing_env 1) (sample_workflow, world0 []) =
           (Inl (Error ''Connection error.''),
            fst (snd (at_phase (failing_env 1) (sample_workflow, world0 []) 2)), w') \<and>
         length (requests w') = length (requests (world0 [])) + 2) \<and>
   map_of (outputs (fst (snd (at_phase (failing_env 1) (sample_workflow, world0 []) 2))))
     (key_of (phases (scenario sample_workflow) ! 2)) = None"
proof -
  let ?s = "snd (at_phase (failing_env 1) (sample_workflow, world0 []) 2)"
  have one: "(1 :: nat) \<le> 2" by simp
  have start: "at_phase (failing_env 1) (sample_workflow, world0 []) 2 = (Inr (), fst ?s, snd ?s)"
    using failing_at_phase_2 by (simp add: prod_eq_iff)
  have four: "(2 :: nat) < length (phases (scenario sample_workflow))" "(2 :: nat) - 1 \<le> 2"
    by (simp_all add: sample_workflow_def marketing_def marketing_phases_def)
  from failed_phase_aborts_run [OF failing_init one sample_len start failing_call_2]
  obtain w' where
    "run (failing_env 1) (sample_workflow, world0 []) = (Inl (Error ''Connection error.''), fst ?s, w')"
    "length (requests w') = length (requests (world0 [])) + 2"
    "\<forall>j < length (phases (scenario sample_workflow)).
        2 - 1 \<le> j \<longrightarrow> map_of (outputs (fst ?s)) (key_of (phases (scenario sample_workflow) ! j)) = None"
    by blast
  with four have
    "\<exists>w'. run (failing_env 1) (sample_workflow, world0 []) =
           (Inl (Error ''Connection error.''), fst ?s, w') \<and>
         length (requests w') = length (requests (world0 [])) + 2"
    "map_of (outputs (fst ?s)) (key_of (phases (scenario sample_workflow) ! 2)) = None"
    by blast+
  with failing_init sample_len start failing_call_2 show ?thesis
    by simp
qed

section \<open>A run in which every call succeeds\<close>

text \<open>
  C2.  In a run of a table scenario in which every completion call that is made
  succeeds, \<open>run\<close> returns normally and the output mapping holds exactly one entry per
  phase: as many entries as the scenario has phases, under the phases' storage keys,
  which are pairwise distinct, in the order of the phases.  The mapping only grows by
  appending: when phase \<open>i + 1\<close> begins it consists of the first \<open>i\<close> entries of the final
  mapping, so no entry is ever removed or overwritten.
\<close>

theorem successful_run_outputs:
  assumes "init e sid tp w0 = (Inr self0, w1)"
    and "run e (self0, w1) = (r, self', w')"
    and "\<forall>j. length (requests w0) \<le> j \<and> j < length (requests w') \<longrightarrow>
             (\<exists>reply. create e j (requests w' ! j) = Inr reply)"
  shows "r = Inr () \<and>
         length (outputs self') = length (phases (scenario self0)) \<and>
         map fst (outputs self') = map key_of (phases (scenario self0)) \<and>
         distinct (map fst (outputs self')) \<and>
         (\<forall>i \<le> length (phases (scenario self0)).
            \<exists>self_i w_i. at_phase e (self0, w1) (Suc i) = (Inr (), self_i, w_i) \<and>
                         outputs self_i = take i (outputs self'))"
proof -
  let ?ps = "phases (scenario self0)"
  obtain h where hdr: "run_header e (self0, w1) = (self0, h)"
    by (metis fst_conv prod.collapse run_header_fields(1))
  from init_Inr [OF assms(1)] have tab: "map_of SCENARIOS sid = Some (scenario self0)"
    and empty: "outputs self0 = []" and w1: "w1 = w0"
    by simp_all
  from table_keys_distinct [OF tab] have d: "distinct (map key_of ?ps)" .
  have "requests (snd (run_header e (self0, w1))) = requests (snd (self0, w1))"
    by (rule run_header_fields(2))
  then have rq_h: "requests h = requests w0"
    unfolding hdr using w1 by simp
  from run_cases [OF assms(2)] consider
    (fail) err where "r = Inl err" "run_phases e 1 ?ps (self0, h) = (Inl err, self', w')"
    | (complete) w2 where "run_phases e 1 ?ps (self0, h) = (Inr (), self', w2)"
        "print_summary e (self', w2) = (r, self', w')" "requests w' = requests w2"
    unfolding hdr by blast
  then show ?thesis
  proof cases
    case fail
    from run_phases_Inl [OF fail(2)] obtain rs where
      rs: "requests w' = requests h @ rs" "rs \<noteq> []"
        "create e (length (requests w') - 1) (last rs) = Inl err"
      by blast
    let ?j = "length (requests w') - 1"
    from rs(1,2) rq_h have j: "length (requests w0) \<le> ?j" "?j < length (requests w')"
      by (cases rs; simp)+
    from rs(1,2) have "requests w' ! ?j = last rs"
      by (metis append_is_Nil_conv last_appendR last_conv_nth)
    with assms(3) j rs(3) show ?thesis
      by (metis sum.distinct(1))
  next
    case complete
    have fresh: "\<forall>p \<in> set ?ps. key_of p \<notin> fst ` set (outputs self0)"
      using empty by simp
    from run_phases_Inr [OF complete(1) d fresh] obtain texts where
      t: "length texts = length ?ps" "outputs self' = outputs self0 @ zip (map key_of ?ps) texts"
      by blast
    with empty have keys: "map fst (outputs self') = map key_of ?ps"
      and len: "length (outputs self') = length ?ps"
      by simp_all
    from run_phases_frame [OF complete(1)] have sc: "scenario self' = scenario self0"
      by simp
    from keys_present [OF keys] sc have
      "\<forall>p \<in> set (phases (scenario self')). \<exists>v. map_of (outputs self') (key_of p) = Some v"
      by simp
    from print_summary_Inr [OF this, of e w2] complete(2) have r: "r = Inr ()"
      by simp
    have pre: "\<exists>self_i w_i. at_phase e (self0, w1) (Suc i) = (Inr (), self_i, w_i) \<and>
                 outputs self_i = take i (outputs self')"
      if i: "i \<le> length ?ps" for i
    proof -
      have "run_phases e 1 (take i ?ps @ drop i ?ps) (self0, h) = (Inr (), self', w2)"
        using complete(1) by simp
      from run_phases_split [OF this] obtain self_i w_i where
        p1: "run_phases e 1 (take i ?ps) (self0, h) = (Inr (), self_i, w_i)" and
        p2: "run_phases e (1 + length (take i ?ps)) (drop i ?ps) (self_i, w_i) = (Inr (), self', w2)"
        by (metis prod.collapse)
      from d have d1: "distinct (map key_of (take i ?ps))" and d2: "distinct (map key_of (drop i ?ps))"
        by (simp_all add: distinct_take distinct_drop take_map [symmetric] drop_map [symmetric])
      have f1: "\<forall>p \<in> set (take i ?ps). key_of p \<notin> fst ` set (outputs self0)"
        using empty by simp
      from run_phases_Inr [OF p1 d1 f1] empty obtain t1 where
        t1: "length t1 = length (take i ?ps)" "outputs self_i = zip (map key_of (take i ?ps)) t1"
        by auto
      from d have "distinct (map key_of (take i ?ps) @ map key_of (drop i ?ps))"
        by (simp add: map_append [symmetric] del: map_append)
      then have "set (map key_of (take i ?ps)) \<inter> set (map key_of (drop i ?ps)) = {}"
        by simp
      moreover from t1 have "fst ` set (outputs self_i) = set (map key_of (take i ?ps))"
        by (metis map_fst_zip length_map set_map)
      ultimately have f2: "\<forall>p \<in> set (drop i ?ps). key_of p \<notin> fst ` set (outputs self_i)"
        by auto
      from run_phases_Inr [OF p2 d2 f2] obtain t2 where
        "outputs self' = outputs self_i @ zip (map key_of (drop i ?ps)) t2"
        by blast
      moreover from t1 i have "length (outputs self_i) = i" by simp
      ultimately have "take i (outputs self') = outputs self_i" by simp
      moreover from p1 have "at_phase e (self0, w1) (Suc i) = (Inr (), self_i, w_i)"
        by (simp add: at_phase_def hdr)
      ultimately show ?thesis by simp
    qed
    from d keys have "distinct (map fst (outputs self'))" by simp
    with r len keys pre show ?thesis by blast
  qed
qed

theorem successful_run_outputs_witness:
  "init replying_env ''marketing'' ''Smart Home Assistant'' (world0 []) =
     (Inr sample_workflow, world0 []) \<and>
   (\<forall>j rq. \<exists>reply. create replying_env j rq = Inr reply) \<and>
   fst (run replying_env (sample_workflow, world0 [])) = Inr () \<and>
   length (outputs (fst (snd (run replying_env (sample_workflow, world0 []))))) =
     length (phases (scenario sample_workflow)) \<and>
   map fst (outputs (fst (snd (run replying_env (sample_workflow, world0 []))))) =
     map key_of (phases (scenario sample_workflow))"
proof -
  let ?x = "run replying_env (sample_workflow, world0 [])"
  have run: "?x = (fst ?x, fst (snd ?x), snd (snd ?x))" by simp
  have calls: "\<forall>j rq. \<exists>reply. create replying_env j rq = Inr reply"
    by (simp add: replying_env_def)
  then have ok: "\<forall>j. length (requests (world0 [])) \<le> j \<and> j < length (requests (snd (snd ?x))) \<longrightarrow>
      (\<exists>reply. create replying_env j (requests (snd (snd ?x)) ! j) = Inr reply)"
    by blast
  from successful_run_outputs [OF sample_init run ok] sample_init calls show ?thesis
    by blast
qed

end
